theory Spec2Isabelle
  imports Complex_Main
begin

section \<open>Isoline plotting with HERE data: a model of \<^verbatim>\<open>plothere.py\<close>\<close>

text \<open>
  The development follows the Python module function by function. Python floats are
  idealised as exact rationals (\<^typ>\<open>rat\<close>): no rounding error is modelled, only the
  special values that the code itself introduces (\<^verbatim>\<open>np.inf\<close>, and the NaN arising from
  them) are kept where they matter. Exceptions are values of \<open>py_error\<close>; the
  print-and-return-\<^verbatim>\<open>None\<close> exits of \<^verbatim>\<open>plot_isolines\<close> are values of \<open>diagnostic\<close>.
\<close>

subsection \<open>Errors and diagnostics\<close>

datatype py_error =
    IndexError    \<comment> \<open>indexing an empty list or array\<close>
  | ValueError    \<comment> \<open>\<^verbatim>\<open>np.max\<close>/\<^verbatim>\<open>np.min\<close> of an empty column, \<^verbatim>\<open>int(nan)\<close>\<close>
  | OverflowError \<comment> \<open>\<^verbatim>\<open>int(-inf)\<close>\<close>
  | DecodeError   \<comment> \<open>a failure of the external polyline decoder\<close>

datatype diagnostic =
    IncorrectIsolineUnit       \<comment> \<open>line 135\<close>
  | IncorrectAxisUnit          \<comment> \<open>line 138\<close>
  | IncompatibleTimeDistance   \<comment> \<open>line 141\<close>
  | IncompatibleDistanceTime   \<comment> \<open>line 144\<close>

subsection \<open>Unit tokens (lines 134--180 of \<^verbatim>\<open>plot_isolines\<close>)\<close>

definition all_units :: "string list" where
  "all_units = [''s'', ''seconds'', ''min'', ''minutes'', ''hours'', ''h'', ''m'', ''meters'',
     ''km'', ''kilometers'', ''kms'', ''ft'', ''feet'', ''foot'', ''yard'', ''yrd'', ''yards'',
     ''mile'', ''miles'', ''mi'', ''mls'']"

definition time_units :: "string list" where
  "time_units = [''s'', ''seconds'', ''min'', ''minutes'', ''hours'', ''h'']"

definition distance_units :: "string list" where
  "distance_units = [''m'', ''meters'', ''km'', ''kilometers'', ''kms'', ''ft'', ''feet'',
     ''foot'', ''yard'', ''yrd'', ''yards'', ''mile'', ''miles'', ''mi'', ''mls'']"

text \<open>
  The four format checks, in source order. \<open>None\<close> means that no check fired and
  the function goes on; \<open>Some d\<close> is the diagnostic printed before \<^verbatim>\<open>return None\<close>.
  The membership tests are on the token as given: no \<^verbatim>\<open>.lower()\<close> is applied here.
\<close>

definition check_units :: "string \<Rightarrow> string \<Rightarrow> diagnostic option" where
  "check_units units ax_units =
     (if units \<notin> set all_units then Some IncorrectIsolineUnit
      else if ax_units \<notin> set all_units then Some IncorrectAxisUnit
      else if units \<in> set time_units \<and> ax_units \<in> set distance_units
        then Some IncompatibleTimeDistance
      else if units \<notin> set time_units \<and> ax_units \<notin> set distance_units
        then Some IncompatibleDistanceTime
      else None)"

text \<open>\<^verbatim>\<open>str.lower\<close>, on the ASCII letters (a \<^typ>\<open>string\<close> is a list of bytes).\<close>

definition lower_char :: "char \<Rightarrow> char" where
  "lower_char c =
     (case map_of (zip ''ABCDEFGHIJKLMNOPQRSTUVWXYZ'' ''abcdefghijklmnopqrstuvwxyz'') c of
        Some l \<Rightarrow> l
      | None \<Rightarrow> c)"

definition lower :: "string \<Rightarrow> string" where
  "lower s = map lower_char s"

text \<open>
  The two \<^verbatim>\<open>if/elif\<close> chains of the conversion. Each multiplies (resp. divides) the
  array of range values by a constant; the constant is returned here. When no branch
  matches, the source leaves \<^verbatim>\<open>values\<close> unassigned (source chain) or unchanged (target
  chain).
\<close>

definition source_factor :: "string \<Rightarrow> rat option" where
  "source_factor units =
     (let u = lower units in
      if u \<in> set [''s'', ''seconds''] then Some 1
      else if u \<in> set [''min'', ''minutes''] then Some 60
      else if u \<in> set [''hours'', ''h''] then Some (60 * 60)
      else if u \<in> set [''m'', ''meters''] then Some 1
      else if u \<in> set [''km'', ''kilometers'', ''kms''] then Some 1000
      else if u \<in> set [''ft'', ''feet'', ''foot''] then Some (3048 / 10000)
      else if u \<in> set [''yard'', ''yrd'', ''yards''] then Some (9144 / 10000)
      else if u \<in> set [''mile'', ''miles'', ''mi'', ''mls''] then Some (1609344 / 1000)
      else None)"

definition target_divisor :: "string \<Rightarrow> rat" where
  "target_divisor ax_units =
     (let u = lower ax_units in
      if u \<in> set [''s'', ''seconds''] then 1
      else if u \<in> set [''min'', ''minutes''] then 60
      else if u \<in> set [''hours'', ''h''] then 60 * 60
      else if u \<in> set [''m'', ''meters''] then 1
      else if u \<in> set [''km'', ''kilometers'', ''kms''] then 1000
      else if u \<in> set [''ft'', ''feet'', ''foot''] then 3048 / 10000
      else if u \<in> set [''yard'', ''yrd'', ''yards''] then 9144 / 10000
      else if u \<in> set [''mile'', ''miles'', ''mi'', ''mls''] then 1609344 / 1000
      else 1)"

text \<open>
  Lines 148--180: the converted label values. An unmatched source token would leave
  \<^verbatim>\<open>values\<close> unbound and the next use of it would raise; that state is \<open>None\<close>.
  The range values are exact rationals here. With integer keys \<^verbatim>\<open>np.array(ranges)\<close>
  is an array of 64-bit integers, and its products with 60, 3600 and 1000 wrap around
  beyond \<open>2\<^sup>6\<^sup>3\<close>; that is not modelled.
\<close>

definition convert_values :: "string \<Rightarrow> string \<Rightarrow> rat list \<Rightarrow> rat list option" where
  "convert_values units ax_units ranges =
     (case source_factor units of
        None \<Rightarrow> None
      | Some f \<Rightarrow> Some (map (\<lambda>r. r * f / target_divisor ax_units) ranges))"

subsection \<open>Decoded isolines (\<^verbatim>\<open>here_isolines_to_WGS84\<close>)\<close>

text \<open>
  A decoded point is a row \<open>(column 0, column 1)\<close> of the coordinate array. The
  isoline dictionary is an association list in insertion order, as a Python \<^verbatim>\<open>dict\<close>
  iterates: assigning to a key that is present replaces its value in place, assigning to
  a new key appends it.
\<close>

type_synonym point = "rat \<times> rat"
type_synonym polygon = "point list"
type_synonym isoline_dict = "(rat \<times> polygon) list"

definition dict_set :: "('k \<times> 'v) list \<Rightarrow> 'k \<Rightarrow> 'v \<Rightarrow> ('k \<times> 'v) list" where
  "dict_set d k v =
     (if k \<in> fst ` set d then map (\<lambda>(k', v'). if k' = k then (k', v) else (k', v')) d
      else d @ [(k, v)])"

text \<open>
  One entry of \<^verbatim>\<open>here_response['isolines']\<close>: its \<^verbatim>\<open>['range']['value']\<close> and the
  \<^verbatim>\<open>'outer'\<close> strings of its \<^verbatim>\<open>'polygons'\<close> list.
\<close>

record isoline_entry =
  range_value :: rat
  polygons_outer :: "string list"

text \<open>
  The flexible-polyline decoder \<^verbatim>\<open>fp.iter_decode\<close> is an external collaborator and a
  parameter of the model; it may fail.
\<close>

type_synonym decoder = "string \<Rightarrow> py_error + polygon"

fun decode_into :: "decoder \<Rightarrow> isoline_entry list \<Rightarrow> isoline_dict \<Rightarrow> py_error + isoline_dict" where
  "decode_into iter_decode [] isolines = Inr isolines"
| "decode_into iter_decode (isoline # rest) isolines =
     (case polygons_outer isoline of
        [] \<Rightarrow> Inl IndexError
      | outer # _ \<Rightarrow>
          (case iter_decode outer of
             Inl e \<Rightarrow> Inl e
           | Inr coords \<Rightarrow>
               decode_into iter_decode rest (dict_set isolines (range_value isoline) coords)))"

definition here_isolines_to_WGS84 :: "decoder \<Rightarrow> isoline_entry list \<Rightarrow> py_error + isoline_dict" where
  "here_isolines_to_WGS84 iter_decode here_response = decode_into iter_decode here_response []"

subsection \<open>Bounding extent (\<^verbatim>\<open>find_extent\<close>)\<close>

text \<open>
  The running extrema start at \<^verbatim>\<open>-np.inf\<close> and \<^verbatim>\<open>np.inf\<close>, so the arithmetic of
  \<^verbatim>\<open>find_extent\<close> is modelled on rationals extended with the two infinities and NaN,
  with the IEEE rules for them.
\<close>

datatype xfloat = NegInf | Fin rat | PosInf | NaN

fun xless :: "xfloat \<Rightarrow> xfloat \<Rightarrow> bool" where
  "xless NaN _ = False"
| "xless _ NaN = False"
| "xless (Fin a) (Fin b) = (a < b)"
| "xless NegInf NegInf = False"
| "xless NegInf _ = True"
| "xless _ NegInf = False"
| "xless PosInf _ = False"
| "xless _ PosInf = True"

fun xneg :: "xfloat \<Rightarrow> xfloat" where
  "xneg NegInf = PosInf"
| "xneg PosInf = NegInf"
| "xneg (Fin a) = Fin (- a)"
| "xneg NaN = NaN"

fun xadd :: "xfloat \<Rightarrow> xfloat \<Rightarrow> xfloat" where
  "xadd NaN _ = NaN"
| "xadd _ NaN = NaN"
| "xadd (Fin a) (Fin b) = Fin (a + b)"
| "xadd PosInf NegInf = NaN"
| "xadd NegInf PosInf = NaN"
| "xadd PosInf _ = PosInf"
| "xadd _ PosInf = PosInf"
| "xadd NegInf _ = NegInf"
| "xadd _ NegInf = NegInf"

definition xsub :: "xfloat \<Rightarrow> xfloat \<Rightarrow> xfloat" where
  "xsub a b = xadd a (xneg b)"

fun xabs :: "xfloat \<Rightarrow> xfloat" where
  "xabs NegInf = PosInf"
| "xabs PosInf = PosInf"
| "xabs (Fin a) = Fin \<bar>a\<bar>"
| "xabs NaN = NaN"

text \<open>Multiplication by a finite factor (the \<^verbatim>\<open>buffer\<close> ratio).\<close>

fun xscale :: "xfloat \<Rightarrow> rat \<Rightarrow> xfloat" where
  "xscale NaN b = NaN"
| "xscale (Fin a) b = Fin (a * b)"
| "xscale PosInf b = (if b = 0 then NaN else if 0 < b then PosInf else NegInf)"
| "xscale NegInf b = (if b = 0 then NaN else if 0 < b then NegInf else PosInf)"

text \<open>
  The body of the \<^verbatim>\<open>for Poly in all_poly\<close> loop on the state
  \<open>(lon_max, lon_min, lat_max, lat_min)\<close>. \<^verbatim>\<open>np.max\<close> of a column without rows
  raises \<^verbatim>\<open>ValueError\<close>; it is the first thing evaluated.
\<close>

type_synonym extrema = "xfloat \<times> xfloat \<times> xfloat \<times> xfloat"

definition extent_step :: "extrema \<Rightarrow> polygon \<Rightarrow> py_error + extrema" where
  "extent_step s Poly =
     (case s of (lon_max, lon_min, lat_max, lat_min) \<Rightarrow>
        if Poly = [] then Inl ValueError
        else
          let c0 = map fst Poly; c1 = map snd Poly;
              lon_max = (if xless lon_max (Fin (Max (set c0))) then Fin (Max (set c0)) else lon_max);
              lon_min = (if xless (Fin (Min (set c0))) lon_min then Fin (Min (set c0)) else lon_min);
              lat_max = (if xless lat_max (Fin (Max (set c1))) then Fin (Max (set c1)) else lat_max);
              lat_min = (if xless (Fin (Min (set c1))) lat_min then Fin (Min (set c1)) else lat_min)
          in Inr (lon_max, lon_min, lat_max, lat_min))"

fun extent_loop :: "extrema \<Rightarrow> polygon list \<Rightarrow> py_error + extrema" where
  "extent_loop s [] = Inr s"
| "extent_loop s (Poly # rest) =
     (case extent_step s Poly of Inl e \<Rightarrow> Inl e | Inr s' \<Rightarrow> extent_loop s' rest)"

definition find_extent :: "polygon list \<Rightarrow> rat \<Rightarrow> py_error + xfloat list" where
  "find_extent all_poly buffer =
     (case extent_loop (NegInf, PosInf, NegInf, PosInf) all_poly of
        Inl e \<Rightarrow> Inl e
      | Inr (lon_max, lon_min, lat_max, lat_min) \<Rightarrow>
          let lon_buffer = xscale (xabs (xsub lon_max lon_min)) buffer;
              lat_buffer = xscale (xabs (xsub lon_max lon_min)) buffer;
              top = xadd lon_max lon_buffer;
              bottom = xsub lon_min lon_buffer;
              left = xsub lat_min lat_buffer;
              right = xadd lat_max lat_buffer
          in Inr [bottom, top, left, right])"

subsection \<open>Compound paths (\<^verbatim>\<open>patch_between\<close>)\<close>

datatype path_code = MOVETO | LINETO

record path =
  vertices :: "point list"
  codes :: "path_code list"

text \<open>
  \<^verbatim>\<open>poly_C = [Path.LINETO for p in poly]; poly_C[0] = Path.MOVETO\<close>: the assignment
  to index 0 raises \<^verbatim>\<open>IndexError\<close> on a polygon without points.
\<close>

definition move_then_lines :: "polygon \<Rightarrow> py_error + path_code list" where
  "move_then_lines poly =
     (if poly = [] then Inl IndexError else Inr ((map (\<lambda>p. LINETO) poly)[0 := MOVETO]))"

definition patch_between :: "polygon \<Rightarrow> polygon \<Rightarrow> py_error + path" where
  "patch_between poly1 poly2 =
     (case move_then_lines poly1 of
        Inl e \<Rightarrow> Inl e
      | Inr poly1_C \<Rightarrow>
          (case move_then_lines poly2 of
             Inl e \<Rightarrow> Inl e
           | Inr poly2_C \<Rightarrow>
               Inr \<lparr>vertices = poly1 @ rev poly2, codes = poly1_C @ poly2_C\<rparr>))"

subsection \<open>The plotting entry point (\<^verbatim>\<open>plot_isolines\<close>)\<close>

text \<open>
  A patch handed to \<^verbatim>\<open>ax.add_patch\<close>: its path, the number given to the colour map, and
  the two numbers and the unit of its label (before \<^verbatim>\<open>round\<close> and \<^verbatim>\<open>str\<close>). The
  pass-through arguments \<^verbatim>\<open>lw\<close>, \<^verbatim>\<open>alpha\<close> and \<^verbatim>\<open>transform\<close> are left out.
\<close>

record patch =
  patch_path :: path
  facecolor :: rat
  label_from :: rat
  label_to :: rat
  label_units :: string

datatype outcome = Rejected diagnostic | Plotted "patch list"

definition get_c :: "nat \<Rightarrow> nat \<Rightarrow> rat" where
  "get_c i n = 1 - (1 / of_nat n) * of_nat i - (1 / (2 * of_nat n))"

text \<open>
  Line 129: the two columns of one decoded ring are exchanged. A ring decoded from no
  points is a one-dimensional empty array, and \<^verbatim>\<open>[:,1]\<close> raises \<^verbatim>\<open>IndexError\<close> on it.
\<close>

definition lonlat :: "polygon \<Rightarrow> py_error + polygon" where
  "lonlat coords = (if coords = [] then Inl IndexError else Inr (map (\<lambda>(c0, c1). (c1, c0)) coords))"

text \<open>Running a fallible function over a list, stopping at the first exception.\<close>

fun collect :: "('a \<Rightarrow> py_error + 'b) \<Rightarrow> 'a list \<Rightarrow> py_error + 'b list" where
  "collect f [] = Inr []"
| "collect f (x # xs) =
     (case f x of
        Inl e \<Rightarrow> Inl e
      | Inr y \<Rightarrow> (case collect f xs of Inl e \<Rightarrow> Inl e | Inr ys \<Rightarrow> Inr (y # ys)))"

text \<open>
  The body of \<^verbatim>\<open>for i in range(len(polygons))\<close> (lines 183--204); \<open>n\<close> is
  \<^verbatim>\<open>len(ranges)\<close>. All indices used are below the length of the lists.
\<close>

definition isoline_patch :: "polygon list \<Rightarrow> rat list \<Rightarrow> string \<Rightarrow> nat \<Rightarrow> nat \<Rightarrow> py_error + patch" where
  "isoline_patch polygons values ax_units n i =
     (if i = 0 then
        (case move_then_lines (polygons ! i) of
           Inl e \<Rightarrow> Inl e
         | Inr poly_C \<Rightarrow>
             Inr \<lparr>patch_path = \<lparr>vertices = polygons ! i, codes = poly_C\<rparr>,
                  facecolor = get_c i n,
                  label_from = 0, label_to = values ! i, label_units = ax_units\<rparr>)
      else
        (case patch_between (polygons ! i) (polygons ! (i - 1)) of
           Inl e \<Rightarrow> Inl e
         | Inr p \<Rightarrow>
             Inr \<lparr>patch_path = p,
                  facecolor = get_c i n,
                  label_from = values ! (i - 1), label_to = values ! i, label_units = ax_units\<rparr>))"

definition plot_loop :: "polygon list \<Rightarrow> rat list \<Rightarrow> string \<Rightarrow> nat \<Rightarrow> py_error + patch list" where
  "plot_loop polygons values ax_units n =
     collect (isoline_patch polygons values ax_units n) [0..<length polygons]"

text \<open>
  \<^verbatim>\<open>plot_isolines\<close>: \<^verbatim>\<open>ranges\<close> are the keys of the dictionary in its iteration
  order, and the polygons are looked up in that same order; nothing is sorted.
  \<^verbatim>\<open>UnboundLocalError\<close> stands for the use of \<^verbatim>\<open>values\<close> in the second
  conversion chain when no branch of the first assigned it.
\<close>

datatype plot_error = Raised py_error | UnboundLocalError

definition plot_isolines :: "isoline_dict \<Rightarrow> string \<Rightarrow> string \<Rightarrow> plot_error + outcome" where
  "plot_isolines isolines units ax_units =
     (let ranges = map fst isolines in
      case collect lonlat (map snd isolines) of
        Inl e \<Rightarrow> Inl (Raised e)
      | Inr polygons \<Rightarrow>
          (case check_units units ax_units of
             Some d \<Rightarrow> Inr (Rejected d)
           | None \<Rightarrow>
               (case convert_values units ax_units ranges of
                  None \<Rightarrow> Inl UnboundLocalError
                | Some values \<Rightarrow>
                    (case plot_loop polygons values ax_units (length ranges) of
                       Inl e \<Rightarrow> Inl (Raised e)
                     | Inr patches \<Rightarrow> Inr (Plotted patches)))))"

text \<open>
  How a rendering surface reads a path: a \<open>MOVETO\<close> opens a new boundary at its
  vertex, a \<open>LINETO\<close> extends the boundary that is open by a segment to its vertex.
  \<open>read_path\<close> scans the (vertex, code) pairs and returns the vertices of leading
  \<open>LINETO\<close>s (they extend whatever boundary is open before the scanned part) and the
  boundaries opened inside the scanned part.
\<close>

fun read_path :: "(point \<times> path_code) list \<Rightarrow> point list \<times> point list list" where
  "read_path [] = ([], [])"
| "read_path ((v, LINETO) # rest) = (case read_path rest of (cont, bs) \<Rightarrow> (v # cont, bs))"
| "read_path ((v, MOVETO) # rest) = (case read_path rest of (cont, bs) \<Rightarrow> ([], (v # cont) # bs))"

definition path_boundaries :: "path \<Rightarrow> point list list" where
  "path_boundaries p = snd (read_path (zip (vertices p) (codes p)))"

subsection \<open>Scale-bar length (\<^verbatim>\<open>scale_bar\<close>, lines 229--237)\<close>

text \<open>\<^verbatim>\<open>10 ** ndim\<close> for an integer exponent of either sign.\<close>

definition pow10 :: "int \<Rightarrow> rat" where
  "pow10 n = (if 0 \<le> n then 10 ^ nat n else 1 / 10 ^ nat (- n))"

text \<open>
  \<^verbatim>\<open>int(np.floor(np.log10(length)))\<close>, computed exactly: the number of divisions by
  ten that bring a value of at least 1 below 10, or of multiplications by ten that bring
  a positive value below 1 up to 1. \<^verbatim>\<open>np.log10\<close> gives \<^verbatim>\<open>-inf\<close> at 0 and NaN below 0,
  and \<^verbatim>\<open>int\<close> raises on both.
\<close>

function log10_down :: "rat \<Rightarrow> nat" where
  "log10_down x = (if x < 10 then 0 else Suc (log10_down (x / 10)))"
  by pat_completeness auto
termination
proof (relation "measure (\<lambda>x. nat \<lfloor>x\<rfloor>)")
  show "wf (measure (\<lambda>x::rat. nat \<lfloor>x\<rfloor>))" by simp
next
  fix x :: rat
  assume "\<not> x < 10"
  then have "x / 10 < of_int \<lfloor>x\<rfloor>" and "0 < \<lfloor>x\<rfloor>"
    by linarith+
  then have "\<lfloor>x / 10\<rfloor> < \<lfloor>x\<rfloor>"
    by (simp add: floor_less_iff)
  with \<open>0 < \<lfloor>x\<rfloor>\<close> show "(x / 10, x) \<in> measure (\<lambda>x. nat \<lfloor>x\<rfloor>)"
    by simp
qed

function log10_up :: "rat \<Rightarrow> nat" where
  "log10_up x = (if x \<le> 0 \<or> 1 \<le> x then 0 else Suc (log10_up (x * 10)))"
  by pat_completeness auto
termination
proof (relation "measure (\<lambda>x. nat \<lceil>1 / x\<rceil>)")
  show "wf (measure (\<lambda>x::rat. nat \<lceil>1 / x\<rceil>))" by simp
next
  fix x :: rat
  assume "\<not> (x \<le> 0 \<or> 1 \<le> x)"
  then have x: "0 < x" "x < 1" by simp_all
  then have "1 < 1 / x" by simp
  then have m: "2 \<le> \<lceil>1 / x\<rceil>" by linarith
  have "1 / (x * 10) = (1 / x) / 10" by simp
  also have "\<dots> \<le> of_int \<lceil>1 / x\<rceil> / 10" by simp
  also have "\<dots> \<le> of_int (\<lceil>1 / x\<rceil> - 1)"
  proof -
    from m have "(2::rat) \<le> of_int \<lceil>1 / x\<rceil>" by linarith
    then have "of_int \<lceil>1 / x\<rceil> / 10 \<le> of_int \<lceil>1 / x\<rceil> - (1::rat)" by linarith
    then show ?thesis by (simp only: of_int_diff of_int_1)
  qed
  finally have "\<lceil>1 / (x * 10)\<rceil> \<le> \<lceil>1 / x\<rceil> - 1" by (simp only: ceiling_le_iff)
  with m show "(x * 10, x) \<in> measure (\<lambda>x. nat \<lceil>1 / x\<rceil>)"
    by (simp only: in_measure)
qed

text \<open>
  Both functions are unfolded by hand where needed; as rewrite rules their defining
  equations would be applied without end on a symbolic argument.
\<close>

declare log10_down.simps [simp del] log10_up.simps [simp del]

definition floor_log10 :: "rat \<Rightarrow> py_error + int" where
  "floor_log10 x =
     (if x < 0 then Inl ValueError
      else if x = 0 then Inl OverflowError
      else if 1 \<le> x then Inr (int (log10_down x))
      else Inr (- int (log10_up x)))"

text \<open>
  Python's \<^verbatim>\<open>round(x, ndigits)\<close>: to the nearest multiple of \<open>10\<^sup>-\<^sup>n\<^sup>d\<^sup>i\<^sup>g\<^sup>i\<^sup>t\<^sup>s\<close>, a tie going
  to the even multiple.
\<close>

definition round_half_even :: "rat \<Rightarrow> int" where
  "round_half_even x =
     (let f = \<lfloor>x\<rfloor>; d = x - of_int f in
      if d < 1 / 2 then f else if 1 / 2 < d then f + 1 else if even f then f else f + 1)"

definition py_round :: "rat \<Rightarrow> int \<Rightarrow> rat" where
  "py_round x ndigits = of_int (round_half_even (x / pow10 (- ndigits))) * pow10 (- ndigits)"

text \<open>\<^verbatim>\<open>int(x)\<close> truncates towards zero.\<close>

definition py_int :: "rat \<Rightarrow> int" where
  "py_int x = (if 0 \<le> x then \<lfloor>x\<rfloor> else \<lceil>x\<rceil>)"

text \<open>
  \<^verbatim>\<open>str(x)[0]\<close> for a float \<open>x\<close>: a minus sign for a negative value; \<^verbatim>\<open>0\<close> for zero and
  for values from \<open>10\<^sup>-\<^sup>4\<close> up to 1, which are printed in positional notation
  (\<^verbatim>\<open>0.0\<close>, \<^verbatim>\<open>0.3\<close>); the leading significant digit otherwise (positional notation from 1
  on, exponent notation below \<open>10\<^sup>-\<^sup>4\<close> and from \<open>10\<^sup>1\<^sup>6\<close> on).
\<close>

definition leading_digit :: "rat \<Rightarrow> nat" where
  "leading_digit x =
     (if 1 \<le> x then nat \<lfloor>x / 10 ^ log10_down x\<rfloor> else nat \<lfloor>x * 10 ^ log10_up x\<rfloor>)"

definition str_first :: "rat \<Rightarrow> char" where
  "str_first x =
     (if x < 0 then CHR ''-''
      else if x = 0 then CHR ''0''
      else if 1 / 10000 \<le> x \<and> x < 1 then CHR ''0''
      else ''0123456789'' ! leading_digit x)"

text \<open>
  The nested function \<^verbatim>\<open>scale_number\<close>, with the captured \<^verbatim>\<open>ndim\<close> as a parameter.
  The source recursion has no base case besides the leading-character test, so the
  model is a partial function: \<open>None\<close> is the recursion that never returns.

  The subtraction is exact in the model. For a candidate of at least 1 the argument is a
  one-digit multiple of \<open>10\<^sup>n\<^sup>d\<^sup>i\<^sup>m\<close> with \<open>ndim \<ge> 0\<close>, an integer that doubles
  subtract exactly as well. Below 1 the double subtraction \<^verbatim>\<open>x - 10 ** ndim\<close> is inexact
  and a run of the code can stop at a residue such as \<^verbatim>\<open>1.39e-16\<close>, whose text begins
  with a 1, where the model goes on. Below 1 the model is therefore used only at the
  candidate 3/10, where the doubles 0.3, 0.19999999999999998, 0.09999999999999998,
  -2.8e-17, ... take the same course as the exact values.
\<close>

partial_function (option) scale_number :: "int \<Rightarrow> rat \<Rightarrow> int option" where
  "scale_number ndim x =
     (if str_first x \<in> set [CHR ''1'', CHR ''2'', CHR ''5''] then Some (py_int x)
      else scale_number ndim (x - pow10 ndim))"

text \<open>
  Lines 229--237: the length of the bar in km for the metric extent \<open>x0 .. x1\<close>
  (\<open>len\<close> is the source's \<^verbatim>\<open>length\<close>).
  \<^verbatim>\<open>if not length\<close> holds for \<^verbatim>\<open>None\<close> and for 0. The result \<open>Inr None\<close> is a
  computation that does not return.
\<close>

definition scale_bar_length :: "rat option \<Rightarrow> rat \<Rightarrow> rat \<Rightarrow> py_error + rat option" where
  "scale_bar_length len x0 x1 =
     (if len = None \<or> len = Some 0 then
        (let len = (x1 - x0) / 5000 in
         case floor_log10 len of
           Inl e \<Rightarrow> Inl e
         | Inr ndim \<Rightarrow>
             (let len = py_round len (- ndim) in
              Inr (map_option of_int (scale_number ndim len))))
      else Inr len)"

section \<open>Properties\<close>

subsection \<open>Auxiliary facts\<close>

lemma collect_all_Inr:
  assumes "\<And>x. x \<in> set xs \<Longrightarrow> f x = Inr (g x)"
  shows "collect f xs = Inr (map g xs)"
  using assms by (induction xs) simp_all

lemma lonlat_nonempty: "coords \<noteq> [] \<Longrightarrow> lonlat coords = Inr (map prod.swap coords)"
  by (simp add: lonlat_def prod.swap_def case_prod_unfold)

lemma collect_lonlat:
  assumes "\<forall>r \<in> set rs. r \<noteq> []"
  shows "collect lonlat rs = Inr (map (map prod.swap) rs)"
  using assms by (intro collect_all_Inr) (simp add: lonlat_nonempty)

lemma plot_isolines_rejected:
  assumes "\<forall>r \<in> set (map snd isolines). r \<noteq> []" and "check_units units ax_units = Some d"
  shows "plot_isolines isolines units ax_units = Inr (Rejected d)"
  using assms(2) collect_lonlat [OF assms(1)] by (simp add: plot_isolines_def)

lemma plot_isolines_not_rejected:
  assumes "check_units units ax_units = None"
  shows "plot_isolines isolines units ax_units \<noteq> Inr (Rejected d)"
  using assms by (simp add: plot_isolines_def Let_def split: sum.splits option.splits)

subsection \<open>Facts about the extent loop\<close>

lemma Max_insert_max:
  fixes a :: "'a::linorder"
  assumes "finite A" "A \<noteq> {}" "finite S"
  shows "Max (insert (max a (Max A)) S) = Max (insert a (A \<union> S))"
proof (cases "S = {}")
  case True
  with assms show ?thesis by simp
next
  case False
  with assms show ?thesis by (simp add: Max_Un max.assoc)
qed

lemma Min_insert_min:
  fixes a :: "'a::linorder"
  assumes "finite A" "A \<noteq> {}" "finite S"
  shows "Min (insert (min a (Min A)) S) = Min (insert a (A \<union> S))"
proof (cases "S = {}")
  case True
  with assms show ?thesis by simp
next
  case False
  with assms show ?thesis by (simp add: Min_Un min.assoc)
qed

lemma Max_insert_Max:
  fixes A :: "'a::linorder set"
  assumes "finite A" "A \<noteq> {}" "finite S"
  shows "Max (insert (Max A) S) = Max (A \<union> S)"
proof (cases "S = {}")
  case True
  with assms show ?thesis by simp
next
  case False
  with assms show ?thesis by (simp add: Max_Un)
qed

lemma Min_insert_Min:
  fixes A :: "'a::linorder set"
  assumes "finite A" "A \<noteq> {}" "finite S"
  shows "Min (insert (Min A) S) = Min (A \<union> S)"
proof (cases "S = {}")
  case True
  with assms show ?thesis by simp
next
  case False
  with assms show ?thesis by (simp add: Min_Un)
qed

lemma xmax_fin: "(if xless (Fin a) (Fin m) then Fin m else Fin a) = Fin (max a m)"
  by (simp add: max_def)

lemma xmin_fin: "(if xless (Fin m) (Fin b) then Fin m else Fin b) = Fin (min b m)"
  by (simp add: min_def)

lemma extent_step_initial:
  assumes "Poly \<noteq> []"
  shows "extent_step (NegInf, PosInf, NegInf, PosInf) Poly =
     Inr (Fin (Max (fst ` set Poly)), Fin (Min (fst ` set Poly)),
          Fin (Max (snd ` set Poly)), Fin (Min (snd ` set Poly)))"
  using assms
  by (simp only: extent_step_def Let_def prod.case if_False xless.simps if_True set_map)

lemma extent_step_finite:
  assumes "Poly \<noteq> []"
  shows "extent_step (Fin a, Fin b, Fin c, Fin d) Poly =
     Inr (Fin (max a (Max (fst ` set Poly))), Fin (min b (Min (fst ` set Poly))),
          Fin (max c (Max (snd ` set Poly))), Fin (min d (Min (snd ` set Poly))))"
  using assms
  by (simp only: extent_step_def Let_def prod.case if_False xmax_fin xmin_fin set_map)

lemma extent_loop_finite:
  assumes "\<forall>P \<in> set ps. P \<noteq> []"
  shows "extent_loop (Fin a, Fin b, Fin c, Fin d) ps =
     Inr (Fin (Max (insert a (fst ` set (concat ps)))), Fin (Min (insert b (fst ` set (concat ps)))),
          Fin (Max (insert c (snd ` set (concat ps)))), Fin (Min (insert d (snd ` set (concat ps)))))"
  using assms
proof (induction ps arbitrary: a b c d)
  case Nil
  show ?case by simp
next
  case (Cons P ps)
  then have P: "P \<noteq> []" and ps: "\<forall>P \<in> set ps. P \<noteq> []" by simp_all
  have fin: "finite (fst ` set P)" "fst ` set P \<noteq> {}" "finite (snd ` set P)" "snd ` set P \<noteq> {}"
    "finite (fst ` set (concat ps))" "finite (snd ` set (concat ps))"
    using P by simp_all
  show ?case
    by (simp only: extent_loop.simps extent_step_finite [OF P] sum.case Cons.IH [OF ps]
        Max_insert_max [OF fin(1,2,5)] Min_insert_min [OF fin(1,2,5)]
        Max_insert_max [OF fin(3,4,6)] Min_insert_min [OF fin(3,4,6)]
        concat.simps set_append image_Un)
qed

lemma extent_loop_nonempty:
  assumes "all_poly \<noteq> []" and "\<forall>P \<in> set all_poly. P \<noteq> []"
  shows "extent_loop (NegInf, PosInf, NegInf, PosInf) all_poly =
     Inr (Fin (Max (fst ` set (concat all_poly))), Fin (Min (fst ` set (concat all_poly))),
          Fin (Max (snd ` set (concat all_poly))), Fin (Min (snd ` set (concat all_poly))))"
proof -
  from assms obtain P ps where ap: "all_poly = P # ps" and P: "P \<noteq> []"
    and ps: "\<forall>P \<in> set ps. P \<noteq> []"
    by (cases all_poly) auto
  have fin: "finite (fst ` set P)" "fst ` set P \<noteq> {}" "finite (snd ` set P)" "snd ` set P \<noteq> {}"
    "finite (fst ` set (concat ps))" "finite (snd ` set (concat ps))"
    using P by simp_all
  show ?thesis
    by (simp only: ap extent_loop.simps extent_step_initial [OF P] sum.case
        extent_loop_finite [OF ps] concat.simps set_append image_Un
        Max_insert_Max [OF fin(1,2,5)] Min_insert_Min [OF fin(1,2,5)]
        Max_insert_Max [OF fin(3,4,6)] Min_insert_Min [OF fin(3,4,6)])
qed

lemma xsub_fin: "xsub (Fin a) (Fin b) = Fin (a - b)"
  by (simp add: xsub_def)

lemma Min_le_Max_nonempty:
  fixes A :: "'a::linorder set"
  assumes "finite A" "A \<noteq> {}"
  shows "Min A \<le> Max A"
proof -
  from assms(2) obtain x where x: "x \<in> A" by blast
  from assms(1) x have "Min A \<le> x" by (rule Min_le)
  also from assms(1) x have "x \<le> Max A" by (rule Max_ge)
  finally show ?thesis .
qed

lemma concat_nonempty:
  assumes "P \<in> set xss" "P \<noteq> []"
  shows "set (concat xss) \<noteq> {}"
proof -
  from assms(2) have "hd P \<in> set P" by (rule hd_in_set)
  then obtain x where "x \<in> set P" ..
  with assms(1) have "x \<in> set (concat xss)" by (simp only: set_concat) blast
  then show ?thesis by (metis empty_iff)
qed

lemma find_extent_formula:
  assumes "all_poly \<noteq> []" and "\<forall>P \<in> set all_poly. P \<noteq> []"
  shows "find_extent all_poly buffer =
     Inr [Fin (Min (fst ` set (concat all_poly))
               - (Max (fst ` set (concat all_poly)) - Min (fst ` set (concat all_poly))) * buffer),
          Fin (Max (fst ` set (concat all_poly))
               + (Max (fst ` set (concat all_poly)) - Min (fst ` set (concat all_poly))) * buffer),
          Fin (Min (snd ` set (concat all_poly))
               - (Max (fst ` set (concat all_poly)) - Min (fst ` set (concat all_poly))) * buffer),
          Fin (Max (snd ` set (concat all_poly))
               + (Max (fst ` set (concat all_poly)) - Min (fst ` set (concat all_poly))) * buffer)]"
proof -
  from assms(1) have "hd all_poly \<in> set all_poly" by (rule hd_in_set)
  then obtain P where P: "P \<in> set all_poly" ..
  with assms(2) have "P \<noteq> []" by blast
  with P have "set (concat all_poly) \<noteq> {}" by (rule concat_nonempty)
  then have ne: "fst ` set (concat all_poly) \<noteq> {}" by (simp only: image_is_empty not_False_eq_True)
  have "finite (fst ` set (concat all_poly))" by (intro finite_imageI finite_set)
  from this ne have "Min (fst ` set (concat all_poly)) \<le> Max (fst ` set (concat all_poly))"
    by (rule Min_le_Max_nonempty)
  then have "\<bar>Max (fst ` set (concat all_poly)) - Min (fst ` set (concat all_poly))\<bar>
      = Max (fst ` set (concat all_poly)) - Min (fst ` set (concat all_poly))"
    by (simp only: abs_of_nonneg diff_ge_0_iff_ge)
  then show ?thesis
    by (simp only: find_extent_def extent_loop_nonempty [OF assms] sum.case prod.case Let_def
        xsub_fin xabs.simps xscale.simps xadd.simps)
qed

lemma find_extent_empty:
  "find_extent [] buffer =
     Inr (if 0 \<le> buffer then [NaN, NaN, NaN, NaN] else [PosInf, NegInf, PosInf, NegInf])"
  by (simp add: find_extent_def xsub_def)

subsection \<open>Facts about paths and the plotting loop\<close>

lemma move_then_lines_nonempty:
  assumes "poly \<noteq> []"
  shows "move_then_lines poly = Inr (MOVETO # replicate (length poly - 1) LINETO)"
proof -
  from assms obtain v vs where "poly = v # vs" by (cases poly) simp_all
  then show ?thesis by (simp add: move_then_lines_def map_replicate_const)
qed

lemma patch_between_nonempty:
  assumes "poly1 \<noteq> []" "poly2 \<noteq> []"
  shows "patch_between poly1 poly2 =
     Inr \<lparr>vertices = poly1 @ rev poly2,
          codes = (MOVETO # replicate (length poly1 - 1) LINETO)
                    @ (MOVETO # replicate (length poly2 - 1) LINETO)\<rparr>"
  using assms by (simp add: patch_between_def move_then_lines_nonempty)

lemma read_path_lines:
  "read_path (zip vs (replicate (length vs) LINETO) @ rest) =
     (vs @ fst (read_path rest), snd (read_path rest))"
  by (induction vs) (simp_all add: case_prod_unfold)

lemma read_path_boundary:
  assumes "r \<noteq> []"
  shows "read_path (zip r (MOVETO # replicate (length r - 1) LINETO) @ rest) =
     ([], (r @ fst (read_path rest)) # snd (read_path rest))"
proof -
  from assms obtain v vs where r: "r = v # vs" by (cases r) simp_all
  show ?thesis by (simp add: r read_path_lines case_prod_unfold)
qed

lemma read_path_boundary_end:
  assumes "r \<noteq> []"
  shows "read_path (zip r (MOVETO # replicate (length r - 1) LINETO)) = ([], [r])"
  using read_path_boundary [OF assms, of "[]"] by simp

lemma path_boundaries_simple:
  assumes "r \<noteq> []"
  shows "path_boundaries \<lparr>vertices = r, codes = MOVETO # replicate (length r - 1) LINETO\<rparr> = [r]"
  by (simp only: path_boundaries_def path.simps read_path_boundary_end [OF assms] snd_conv)

lemma path_boundaries_compound:
  assumes "r \<noteq> []" "q \<noteq> []"
  shows "path_boundaries \<lparr>vertices = r @ q,
            codes = (MOVETO # replicate (length r - 1) LINETO)
                      @ (MOVETO # replicate (length q - 1) LINETO)\<rparr> = [r, q]"
proof -
  have len: "length r = length (MOVETO # replicate (length r - 1) LINETO)"
    using assms(1) by (cases r) simp_all
  have "zip (r @ q) ((MOVETO # replicate (length r - 1) LINETO)
                      @ (MOVETO # replicate (length q - 1) LINETO))
      = zip r (MOVETO # replicate (length r - 1) LINETO)
          @ zip q (MOVETO # replicate (length q - 1) LINETO)"
    using len by (rule zip_append)
  then show ?thesis
    by (simp only: path_boundaries_def path.simps read_path_boundary [OF assms(1)]
        read_path_boundary_end [OF assms(2)] fst_conv snd_conv append_Nil2)
qed

lemma isoline_patch_first:
  assumes "polygons ! 0 \<noteq> []"
  shows "isoline_patch polygons values ax_units n 0 =
     Inr \<lparr>patch_path = \<lparr>vertices = polygons ! 0,
                         codes = MOVETO # replicate (length (polygons ! 0) - 1) LINETO\<rparr>,
          facecolor = get_c 0 n, label_from = 0, label_to = values ! 0,
          label_units = ax_units\<rparr>"
  by (simp only: isoline_patch_def move_then_lines_nonempty [OF assms] simp_thms if_True
      sum.case)

lemma isoline_patch_later:
  assumes "i \<noteq> 0" "polygons ! i \<noteq> []" "polygons ! (i - 1) \<noteq> []"
  shows "isoline_patch polygons values ax_units n i =
     Inr \<lparr>patch_path =
            \<lparr>vertices = polygons ! i @ rev (polygons ! (i - 1)),
             codes = (MOVETO # replicate (length (polygons ! i) - 1) LINETO)
                       @ (MOVETO # replicate (length (polygons ! (i - 1)) - 1) LINETO)\<rparr>,
          facecolor = get_c i n, label_from = values ! (i - 1), label_to = values ! i,
          label_units = ax_units\<rparr>"
  by (simp only: isoline_patch_def patch_between_nonempty [OF assms(2,3)] assms(1) simp_thms
      if_False sum.case)

lemma nth_nonempty:
  assumes "\<forall>r \<in> set polygons. r \<noteq> []" and "i < length polygons"
  shows "polygons ! i \<noteq> []"
proof -
  from assms(2) have "polygons ! i \<in> set polygons" by (rule nth_mem)
  with assms(1) show ?thesis by (rule bspec)
qed

lemma isoline_patch_nonempty:
  assumes "\<forall>r \<in> set polygons. r \<noteq> []" and "i < length polygons"
  shows "\<exists>p. isoline_patch polygons values ax_units n i = Inr p"
proof (cases "i = 0")
  case True
  from assms have z: "polygons ! 0 \<noteq> []" unfolding True by (rule nth_nonempty)
  show ?thesis unfolding True isoline_patch_first [OF z] by (rule exI) (rule refl)
next
  case False
  from assms(2) have "i - 1 < length polygons" by arith
  with assms(1) have p: "polygons ! (i - 1) \<noteq> []" by (rule nth_nonempty)
  from assms have q: "polygons ! i \<noteq> []" by (rule nth_nonempty)
  show ?thesis unfolding isoline_patch_later [OF False q p] by (rule exI) (rule refl)
qed

lemma plot_loop_nonempty:
  assumes "\<forall>r \<in> set polygons. r \<noteq> []"
  shows "plot_loop polygons values ax_units n =
     Inr (map (\<lambda>i. projr (isoline_patch polygons values ax_units n i)) [0..<length polygons])"
  unfolding plot_loop_def
proof (rule collect_all_Inr)
  fix i
  assume "i \<in> set [0..<length polygons]"
  then have "i < length polygons" by simp
  with assms(1) have "\<exists>p. isoline_patch polygons values ax_units n i = Inr p"
    by (rule isoline_patch_nonempty)
  then obtain p where "isoline_patch polygons values ax_units n i = Inr p" ..
  then show "isoline_patch polygons values ax_units n i =
      Inr (projr (isoline_patch polygons values ax_units n i))"
    by (simp only: sum.sel)
qed

lemma all_units_have_factor: "\<forall>u \<in> set all_units. source_factor u \<noteq> None"
  by (simp add: all_units_def source_factor_def lower_def lower_char_def del: not_None_eq)

lemma check_units_None_factor:
  assumes "check_units units ax_units = None"
  shows "\<exists>f. source_factor units = Some f"
proof -
  from assms have "units \<in> set all_units"
    by (simp add: check_units_def split: if_splits)
  with all_units_have_factor have "source_factor units \<noteq> None" by (rule bspec)
  then show ?thesis by (simp only: not_None_eq)
qed

lemma plot_isolines_accepted:
  assumes "\<forall>r \<in> set (map snd isolines). r \<noteq> []" and "check_units units ax_units = None"
  shows "plot_isolines isolines units ax_units =
     Inr (Plotted (map (\<lambda>i. projr (isoline_patch (map (map prod.swap) (map snd isolines))
            (map (\<lambda>r. r * the (source_factor units) / target_divisor ax_units) (map fst isolines))
            ax_units (length isolines) i))
          [0..<length isolines]))"
proof -
  from assms(2) obtain f where f: "source_factor units = Some f"
    using check_units_None_factor by blast
  have sw: "\<forall>r \<in> set (map (map prod.swap) (map snd isolines)). r \<noteq> []"
    using assms(1) by simp
  have loop: "plot_loop (map (map prod.swap) (map snd isolines)) vs ax_units m =
     Inr (map (\<lambda>i. projr (isoline_patch (map (map prod.swap) (map snd isolines)) vs ax_units m i))
          [0..<length isolines])" for vs m
    using plot_loop_nonempty [OF sw, of vs ax_units m] by simp
  show ?thesis
    by (simp only: plot_isolines_def Let_def collect_lonlat [OF assms(1)] assms(2) sum.case
        option.case convert_values_def f option.sel loop length_map)
qed

lemma plot_isolines_patches:
  assumes "\<forall>r \<in> set (map snd isolines). r \<noteq> []" and "check_units units ax_units = None"
  shows "\<exists>patches.
     plot_isolines isolines units ax_units = Inr (Plotted patches) \<and>
     length patches = length isolines \<and>
     (\<forall>i. i < length isolines \<longrightarrow>
        hd (path_boundaries (patch_path (patches ! i))) = map prod.swap (snd (isolines ! i)) \<and>
        label_to (patches ! i) =
          fst (isolines ! i) * the (source_factor units) / target_divisor ax_units)"
proof -
  let ?ps = "map (map prod.swap) (map snd isolines)"
  let ?vs = "map (\<lambda>r. r * the (source_factor units) / target_divisor ax_units) (map fst isolines)"
  let ?n = "length isolines"
  define patches where
    "patches = map (\<lambda>i. projr (isoline_patch ?ps ?vs ax_units ?n i)) [0..<?n]"
  have run: "plot_isolines isolines units ax_units = Inr (Plotted patches)"
    unfolding patches_def using assms by (rule plot_isolines_accepted)
  have len: "length patches = ?n" by (simp add: patches_def)
  have sw: "\<forall>r \<in> set ?ps. r \<noteq> []" using assms(1) by simp
  have each: "hd (path_boundaries (patch_path (patches ! i))) = map prod.swap (snd (isolines ! i)) \<and>
        label_to (patches ! i) =
          fst (isolines ! i) * the (source_factor units) / target_divisor ax_units"
    if i: "i < ?n" for i
  proof -
    from i have nth: "patches ! i = projr (isoline_patch ?ps ?vs ax_units ?n i)"
      by (simp add: patches_def)
    from i have il: "i < length ?ps" and pl: "i - 1 < length ?ps" by simp_all
    from sw il have q: "?ps ! i \<noteq> []" by (rule nth_nonempty)
    from sw pl have p: "?ps ! (i - 1) \<noteq> []" by (rule nth_nonempty)
    from i have psi: "?ps ! i = map prod.swap (snd (isolines ! i))" by simp
    from i have vsi: "?vs ! i = fst (isolines ! i) * the (source_factor units) / target_divisor ax_units"
      by simp
    show ?thesis
    proof (cases "i = 0")
      case True
      from q have z: "?ps ! 0 \<noteq> []" unfolding True .
      have "patches ! 0 = projr (isoline_patch ?ps ?vs ax_units ?n 0)"
        using nth unfolding True .
      then have "hd (path_boundaries (patch_path (patches ! 0))) = ?ps ! 0"
        and "label_to (patches ! 0) = ?vs ! 0"
        by (simp_all only: isoline_patch_first [OF z] sum.sel patch.simps
            path_boundaries_simple [OF z] list.sel)
      then show ?thesis using psi vsi unfolding True by simp
    next
      case False
      from p have rp: "rev (?ps ! (i - 1)) \<noteq> []" by simp
      have lr: "length (rev (?ps ! (i - 1))) = length (?ps ! (i - 1))" by simp
      have "hd (path_boundaries (patch_path (patches ! i))) = ?ps ! i"
        and "label_to (patches ! i) = ?vs ! i"
        using path_boundaries_compound [OF q rp]
        by (simp_all only: nth isoline_patch_later [OF False q p] sum.sel patch.simps lr list.sel)
      then show ?thesis using psi vsi by simp
    qed
  qed
  from run len each show ?thesis by blast
qed

subsection \<open>Facts about the decoding loop\<close>

lemma dict_set_keys:
  "map fst (dict_set d k v) = (if k \<in> set (map fst d) then map fst d else map fst d @ [k])"
  by (induction d) (auto simp add: dict_set_def case_prod_unfold)

lemma dict_set_subset: "set (dict_set d k v) \<subseteq> set d \<union> {(k, v)}"
  by (auto simp add: dict_set_def split: if_splits)

lemma dict_set_distinct:
  assumes "distinct (map fst d)"
  shows "distinct (map fst (dict_set d k v))"
  using assms by (simp add: dict_set_keys)

lemma dict_set_lookup: "map_of (dict_set d k v) k = Some v"
proof (cases "k \<in> fst ` set d")
  case False
  then have "map_of d k = None" by (simp add: map_of_eq_None_iff)
  with False show ?thesis by (simp add: dict_set_def map_add_def)
next
  case True
  have "k \<in> fst ` set d' \<Longrightarrow>
      map_of (map (\<lambda>(k', v'). if k' = k then (k', v) else (k', v')) d') k = Some v" for d'
    by (induction d') (auto simp add: case_prod_unfold)
  with True show ?thesis by (simp add: dict_set_def)
qed

lemma dict_set_new:
  assumes "k \<notin> fst ` set d"
  shows "dict_set d k v = d @ [(k, v)]"
  using assms by (simp add: dict_set_def)

text \<open>The rows stored by the decoding loop are rows returned by the decoder.\<close>

lemma decode_into_Cons_Inr:
  assumes "decode_into iter_decode (e # resp) acc = Inr d"
  shows "\<exists>outer rest coords. polygons_outer e = outer # rest \<and> iter_decode outer = Inr coords \<and>
     decode_into iter_decode resp (dict_set acc (range_value e) coords) = Inr d"
proof (cases "polygons_outer e")
  case Nil
  with assms have "Inl IndexError = (Inr d :: py_error + isoline_dict)"
    by (simp only: decode_into.simps list.case)
  then show ?thesis by (simp only: sum.distinct)
next
  case po: (Cons outer rest)
  show ?thesis
  proof (cases "iter_decode outer")
    case (Inl err)
    with assms po have "Inl err = (Inr d :: py_error + isoline_dict)"
      by (simp only: decode_into.simps list.case sum.case)
    then show ?thesis by (simp only: sum.distinct)
  next
    case (Inr coords)
    with assms po have "decode_into iter_decode resp (dict_set acc (range_value e) coords) = Inr d"
      by (simp only: decode_into.simps list.case sum.case)
    with po Inr show ?thesis by (intro exI conjI)
  qed
qed

lemma decode_into_sound:
  assumes "decode_into iter_decode resp acc = Inr d" and "(k, ring) \<in> set d"
  shows "(k, ring) \<in> set acc \<or>
     (\<exists>entry \<in> set resp. range_value entry = k \<and> polygons_outer entry \<noteq> [] \<and>
        iter_decode (hd (polygons_outer entry)) = Inr ring)"
  using assms
proof (induction resp arbitrary: acc)
  case Nil
  then have "d = acc" by (simp only: decode_into.simps sum.inject)
  with Nil.prems(2) show ?case by (intro disjI1) (simp only:)
next
  case (Cons e resp)
  from decode_into_Cons_Inr [OF Cons.prems(1)] obtain outer rest coords where
    po: "polygons_outer e = outer # rest" and dec: "iter_decode outer = Inr coords" and
    run: "decode_into iter_decode resp (dict_set acc (range_value e) coords) = Inr d"
    by (elim exE conjE)
  have here: "range_value e = range_value e \<and> polygons_outer e \<noteq> [] \<and>
          iter_decode (hd (polygons_outer e)) = Inr coords"
    by (simp only: po dec list.sel list.distinct simp_thms)
  from Cons.IH [OF run Cons.prems(2)]
  have "(k, ring) \<in> set (dict_set acc (range_value e) coords) \<or>
     (\<exists>entry \<in> set resp. range_value entry = k \<and> polygons_outer entry \<noteq> [] \<and>
        iter_decode (hd (polygons_outer entry)) = Inr ring)" .
  then show ?case
  proof
    assume "(k, ring) \<in> set (dict_set acc (range_value e) coords)"
    then have "(k, ring) \<in> set acc \<union> {(range_value e, coords)}"
      using dict_set_subset [of acc "range_value e" coords] by (rule set_mp [rotated])
    then have "(k, ring) \<in> set acc \<or> (k, ring) = (range_value e, coords)"
      by (simp only: Un_iff singleton_iff)
    then show ?thesis
    proof
      assume "(k, ring) \<in> set acc"
      then show ?thesis ..
    next
      assume "(k, ring) = (range_value e, coords)"
      then have "k = range_value e" "ring = coords" by (simp_all only: prod.inject)
      with here have "range_value e = k \<and> polygons_outer e \<noteq> [] \<and>
          iter_decode (hd (polygons_outer e)) = Inr ring"
        by (simp only: simp_thms)
      moreover have "e \<in> set (e # resp)" by (rule list.set_intros(1))
      ultimately have "\<exists>entry \<in> set (e # resp). range_value entry = k \<and>
          polygons_outer entry \<noteq> [] \<and> iter_decode (hd (polygons_outer entry)) = Inr ring"
        by (rule bexI)
      then show ?thesis ..
    qed
  next
    assume "\<exists>entry \<in> set resp. range_value entry = k \<and> polygons_outer entry \<noteq> [] \<and>
        iter_decode (hd (polygons_outer entry)) = Inr ring"
    then obtain entry where "entry \<in> set resp" and ent: "range_value entry = k \<and>
        polygons_outer entry \<noteq> [] \<and> iter_decode (hd (polygons_outer entry)) = Inr ring" ..
    from this(1) have "entry \<in> set (e # resp)" by (rule list.set_intros(2))
    with ent have "\<exists>entry \<in> set (e # resp). range_value entry = k \<and>
          polygons_outer entry \<noteq> [] \<and> iter_decode (hd (polygons_outer entry)) = Inr ring"
      by (rule bexI)
    then show ?thesis ..
  qed
qed

text \<open>When every entry decodes, the loop is a fold of dictionary assignments.\<close>

lemma decode_into_fold:
  assumes "\<forall>entry \<in> set resp. polygons_outer entry \<noteq> [] \<and>
      (\<exists>ring. iter_decode (hd (polygons_outer entry)) = Inr ring)"
  shows "decode_into iter_decode resp acc =
     Inr (fold (\<lambda>entry d. dict_set d (range_value entry)
                  (projr (iter_decode (hd (polygons_outer entry))))) resp acc)"
  using assms
proof (induction resp arbitrary: acc)
  case Nil
  show ?case by simp
next
  case (Cons e resp)
  from Cons.prems obtain outer rest ring where
    po: "polygons_outer e = outer # rest" and dec: "iter_decode outer = Inr ring"
    by (cases "polygons_outer e") auto
  from Cons.prems have rest: "\<forall>entry \<in> set resp. polygons_outer entry \<noteq> [] \<and>
      (\<exists>ring. iter_decode (hd (polygons_outer entry)) = Inr ring)" by simp
  show ?case by (simp add: po dec Cons.IH [OF rest])
qed

lemma dict_set_key_set: "set (map fst (dict_set d k v)) = insert k (set (map fst d))"
  by (simp only: dict_set_keys) auto

lemma fold_dict_set_keys:
  "set (map fst (fold (\<lambda>entry d. dict_set d (range_value entry) (g entry)) resp acc))
     = set (map fst acc) \<union> range_value ` set resp"
proof (induction resp arbitrary: acc)
  case Nil
  show ?case by simp
next
  case (Cons e resp)
  have "set (map fst (fold (\<lambda>entry d. dict_set d (range_value entry) (g entry)) (e # resp) acc))
      = set (map fst (dict_set acc (range_value e) (g e))) \<union> range_value ` set resp"
    by (simp only: fold_simps Cons.IH)
  also have "\<dots> = insert (range_value e) (set (map fst acc)) \<union> range_value ` set resp"
    by (simp only: dict_set_key_set)
  also have "\<dots> = set (map fst acc) \<union> range_value ` set (e # resp)"
    by auto
  finally show ?case .
qed

lemma fold_dict_set_distinct:
  assumes "distinct (map fst acc)"
  shows "distinct (map fst (fold (\<lambda>entry d. dict_set d (range_value entry) (g entry)) resp acc))"
  using assms by (induction resp arbitrary: acc) (simp_all add: dict_set_distinct)

lemma fold_dict_set_fresh:
  assumes "distinct (map range_value resp)" and "range_value ` set resp \<inter> fst ` set acc = {}"
  shows "fold (\<lambda>entry d. dict_set d (range_value entry) (g entry)) resp acc
     = acc @ map (\<lambda>entry. (range_value entry, g entry)) resp"
  using assms
proof (induction resp arbitrary: acc)
  case Nil
  show ?case by simp
next
  case (Cons e resp)
  have "range_value e \<in> range_value ` set (e # resp)" by simp
  with Cons.prems(2) have new: "range_value e \<notin> fst ` set acc" by blast
  from Cons.prems(1) have d: "distinct (map range_value resp)"
    and ne: "range_value e \<notin> range_value ` set resp"
    by simp_all
  have "range_value ` set resp \<subseteq> range_value ` set (e # resp)" by (simp add: subset_insertI)
  with Cons.prems(2) have "range_value ` set resp \<inter> fst ` set acc = {}" by blast
  with ne have fresh: "range_value ` set resp \<inter> fst ` set (acc @ [(range_value e, g e)]) = {}"
    by simp
  have "fold (\<lambda>entry d. dict_set d (range_value entry) (g entry)) (e # resp) acc
      = fold (\<lambda>entry d. dict_set d (range_value entry) (g entry)) resp
          (acc @ [(range_value e, g e)])"
    by (simp only: fold_simps dict_set_new [OF new])
  also have "\<dots> = (acc @ [(range_value e, g e)]) @ map (\<lambda>entry. (range_value entry, g entry)) resp"
    using d fresh by (rule Cons.IH)
  also have "\<dots> = acc @ map (\<lambda>entry. (range_value entry, g entry)) (e # resp)"
    by simp
  finally show ?case .
qed

lemma fold_dict_set_last:
  assumes "resp \<noteq> []"
  shows "map_of (fold (\<lambda>entry d. dict_set d (range_value entry) (g entry)) resp acc)
           (range_value (last resp)) = Some (g (last resp))"
proof -
  from assms have "butlast resp @ [last resp] = resp" by (rule append_butlast_last_id)
  then have "fold (\<lambda>entry d. dict_set d (range_value entry) (g entry)) resp acc
      = fold (\<lambda>entry d. dict_set d (range_value entry) (g entry)) (butlast resp @ [last resp]) acc"
    by (simp only:)
  also have "\<dots> = dict_set (fold (\<lambda>entry d. dict_set d (range_value entry) (g entry)) (butlast resp) acc)
          (range_value (last resp)) (g (last resp))"
    by (simp only: fold_append fold_simps comp_apply id_apply)
  finally show ?thesis by (simp only: dict_set_lookup)
qed

lemma swapped_columns:
  "fst ` set (concat (map (map prod.swap) rings)) = snd ` set (concat rings)"
  "snd ` set (concat (map (map prod.swap) rings)) = fst ` set (concat rings)"
proof -
  have "concat (map (map prod.swap) rings) = map prod.swap (concat rings)"
    by (simp only: map_concat)
  then have eq: "set (concat (map (map prod.swap) rings)) = prod.swap ` set (concat rings)"
    by (simp only: set_map)
  show "fst ` set (concat (map (map prod.swap) rings)) = snd ` set (concat rings)"
    by (simp only: eq image_image fst_swap)
  show "snd ` set (concat (map (map prod.swap) rings)) = fst ` set (concat rings)"
    by (simp only: eq image_image snd_swap)
qed

lemma dict_set_lookup_other:
  assumes "k' \<noteq> k"
  shows "map_of (dict_set d k v) k' = map_of d k'"
proof (cases "k \<in> fst ` set d")
  case False
  with assms show ?thesis by (simp add: dict_set_def map_add_def split: option.split)
next
  case True
  have "map_of (map (\<lambda>(a, b). if a = k then (a, v) else (a, b)) d') k' = map_of d' k'" for d'
    using assms by (induction d') (auto simp add: case_prod_unfold)
  with True show ?thesis by (simp add: dict_set_def)
qed

lemma fold_dict_set_snoc:
  "fold (\<lambda>entry d. dict_set d (range_value entry) (g entry)) (xs @ [e]) acc
     = dict_set (fold (\<lambda>entry d. dict_set d (range_value entry) (g entry)) xs acc)
         (range_value e) (g e)"
  by (simp only: fold_append fold_simps comp_apply id_apply)

text \<open>Under every key, the ring of the last entry that declares it.\<close>

lemma fold_dict_set_lookup:
  assumes "k \<in> range_value ` set resp"
  shows "map_of (fold (\<lambda>entry d. dict_set d (range_value entry) (g entry)) resp acc) k
     = Some (g (last (filter (\<lambda>entry. range_value entry = k) resp)))"
  using assms
proof (induction resp rule: rev_induct)
  case Nil
  then show ?case by simp
next
  case (snoc e xs)
  show ?case
  proof (cases "range_value e = k")
    case True
    then have "last (filter (\<lambda>entry. range_value entry = k) (xs @ [e])) = e" by simp
    moreover have "map_of (fold (\<lambda>entry d. dict_set d (range_value entry) (g entry)) (xs @ [e]) acc) k
        = Some (g e)"
      unfolding fold_dict_set_snoc True [symmetric] by (rule dict_set_lookup)
    ultimately show ?thesis by (simp only:)
  next
    case False
    with snoc.prems have in_xs: "k \<in> range_value ` set xs" by auto
    from False have flt: "filter (\<lambda>entry. range_value entry = k) (xs @ [e])
        = filter (\<lambda>entry. range_value entry = k) xs" by simp
    from False have ne: "k \<noteq> range_value e" by blast
    have "map_of (fold (\<lambda>entry d. dict_set d (range_value entry) (g entry)) (xs @ [e]) acc) k
        = map_of (fold (\<lambda>entry d. dict_set d (range_value entry) (g entry)) xs acc) k"
      unfolding fold_dict_set_snoc using ne by (rule dict_set_lookup_other)
    also have "\<dots> = Some (g (last (filter (\<lambda>entry. range_value entry = k) xs)))"
      using in_xs by (rule snoc.IH)
    finally show ?thesis by (simp only: flt)
  qed
qed

text \<open>The keys stand in the order in which the range values first occur.\<close>

lemma fold_dict_set_key_order:
  "map fst (fold (\<lambda>entry d. dict_set d (range_value entry) (g entry)) resp [])
     = rev (remdups (rev (map range_value resp)))"
proof (induction resp rule: rev_induct)
  case Nil
  show ?case by simp
next
  case (snoc e xs)
  have "set (rev (remdups (rev (map range_value xs)))) = range_value ` set xs" by simp
  then have mem: "range_value e \<in> set (map fst
        (fold (\<lambda>entry d. dict_set d (range_value entry) (g entry)) xs []))
      \<longleftrightarrow> range_value e \<in> range_value ` set xs"
    by (simp only: snoc.IH)
  show ?case
  proof (cases "range_value e \<in> range_value ` set xs")
    case True
    with mem show ?thesis
      unfolding fold_dict_set_snoc dict_set_keys by (simp add: snoc.IH)
  next
    case False
    with mem show ?thesis
      unfolding fold_dict_set_snoc dict_set_keys by (simp add: snoc.IH)
  qed
qed

subsection \<open>Facts about the scale-bar length\<close>




lemma pow10_powi: "pow10 n = 10 powi n"
  by (simp add: pow10_def power_int_def inverse_eq_divide power_one_over)

lemma pow10_pos: "0 < pow10 n"
  by (simp add: pow10_powi)


lemma log10_down_unique:
  assumes "10 ^ k \<le> x" and "x < 10 ^ Suc k"
  shows "log10_down x = k"
  using assms
proof (induction k arbitrary: x)
  case 0
  then have "x < 10" by simp
  then show ?case by (subst log10_down.simps) simp
next
  case (Suc k)
  have "(10::rat) \<le> 10 ^ Suc k" by (simp add: self_le_power)
  with Suc.prems(1) have ge: "\<not> x < 10" by linarith
  from Suc.prems have "10 ^ k \<le> x / 10" and "x / 10 < 10 ^ Suc k" by simp_all
  then have "log10_down (x / 10) = k" by (rule Suc.IH)
  with ge show ?case by (subst log10_down.simps) simp
qed







lemma py_round_multiple:
  "py_round c (- n) = of_int (round_half_even (c / pow10 n)) * pow10 n"
  by (simp add: py_round_def)



lemma leading_digit_one_digit:
  assumes "1 \<le> m" and "m \<le> 9"
  shows "leading_digit (of_int m * 10 ^ k) = nat m"
proof -
  have p: "(0::rat) < 10 ^ k" by simp
  from assms(1) have "(1::rat) \<le> of_int m" by simp
  then have lo: "(10::rat) ^ k \<le> of_int m * 10 ^ k" using p by simp
  from assms(2) have "(of_int m :: rat) < 10" by simp
  then have hi: "(of_int m :: rat) * 10 ^ k < 10 ^ Suc k" using p by simp
  from lo hi have l: "log10_down (of_int m * 10 ^ k) = k" by (rule log10_down_unique)
  have "(1::rat) \<le> 10 ^ k" by simp
  with lo have one: "(1::rat) \<le> of_int m * 10 ^ k" by linarith
  show ?thesis by (simp add: leading_digit_def one l)
qed

lemma leading_digit_ten: "leading_digit (of_int 10 * 10 ^ k) = 1"
proof -
  have eq: "(of_int 10 :: rat) * 10 ^ k = 10 ^ Suc k" by simp
  have "(10::rat) ^ Suc k \<le> 10 ^ Suc k" and "(10::rat) ^ Suc k < 10 ^ Suc (Suc k)" by simp_all
  then have l: "log10_down (10 ^ Suc k) = Suc k" by (rule log10_down_unique)
  have one: "(1::rat) \<le> 10 ^ Suc k" by (rule one_le_power) simp
  show ?thesis unfolding eq leading_digit_def using one l by simp
qed

lemma str_first_one_digit:
  assumes "1 \<le> m" and "m \<le> 9"
  shows "str_first (of_int m * 10 ^ k) = ''0123456789'' ! nat m"
proof -
  have "(1::rat) \<le> 10 ^ k" by simp
  moreover from assms(1) have "(1::rat) \<le> of_int m" by simp
  ultimately have "(1::rat) * 1 \<le> of_int m * 10 ^ k" by (intro mult_mono) simp_all
  then have one: "(1::rat) \<le> of_int m * 10 ^ k" by simp
  then have "\<not> of_int m * (10::rat) ^ k < 0" "of_int m * (10::rat) ^ k \<noteq> 0"
    "\<not> of_int m * (10::rat) ^ k < 1" by linarith+
  then show ?thesis
    by (simp only: str_first_def if_False simp_thms leading_digit_one_digit [OF assms])
qed

lemma str_first_ten: "str_first (of_int 10 * 10 ^ k) = CHR ''1''"
proof -
  have "(1::rat) \<le> 10 ^ Suc k" by (rule one_le_power) simp
  then have one: "(1::rat) \<le> of_int 10 * 10 ^ k" by simp
  then have "\<not> of_int 10 * (10::rat) ^ k < 0" "of_int 10 * (10::rat) ^ k \<noteq> 0"
    "\<not> of_int 10 * (10::rat) ^ k < 1" by linarith+
  then have "str_first (of_int 10 * 10 ^ k) = ''0123456789'' ! 1"
    by (simp only: str_first_def if_False simp_thms leading_digit_ten)
  then show ?thesis by simp
qed

lemma digit_chars:
  "''0123456789'' ! nat 1 = CHR ''1''" "''0123456789'' ! nat 2 = CHR ''2''"
  "''0123456789'' ! nat 3 = CHR ''3''" "''0123456789'' ! nat 4 = CHR ''4''"
  "''0123456789'' ! nat 5 = CHR ''5''" "''0123456789'' ! nat 6 = CHR ''6''"
  "''0123456789'' ! nat 7 = CHR ''7''" "''0123456789'' ! nat 8 = CHR ''8''"
  "''0123456789'' ! nat 9 = CHR ''9''"
  by simp_all

lemma str_first_digits:
  "str_first (of_int 1 * 10 ^ k) = CHR ''1''" "str_first (of_int 2 * 10 ^ k) = CHR ''2''"
  "str_first (of_int 3 * 10 ^ k) = CHR ''3''" "str_first (of_int 4 * 10 ^ k) = CHR ''4''"
  "str_first (of_int 5 * 10 ^ k) = CHR ''5''" "str_first (of_int 6 * 10 ^ k) = CHR ''6''"
  "str_first (of_int 7 * 10 ^ k) = CHR ''7''" "str_first (of_int 8 * 10 ^ k) = CHR ''8''"
  "str_first (of_int 9 * 10 ^ k) = CHR ''9''"
  using str_first_one_digit [of 1 k] str_first_one_digit [of 2 k] str_first_one_digit [of 3 k]
    str_first_one_digit [of 4 k] str_first_one_digit [of 5 k] str_first_one_digit [of 6 k]
    str_first_one_digit [of 7 k] str_first_one_digit [of 8 k] str_first_one_digit [of 9 k]
  by simp_all






lemma str_first_nice:
  assumes "d \<in> {1, 2, 5, 10}"
  shows "str_first (of_int (d * 10 ^ k)) \<in> {CHR ''1'', CHR ''2'', CHR ''5''}"
proof -
  have "of_int (d * 10 ^ k) = (of_int d :: rat) * 10 ^ k" by simp
  with assms show ?thesis
    using str_first_digits(1,2,5) [of k] str_first_ten [of k] by auto
qed



text \<open>
  With \<open>ndim = -1\<close>, a value below 1 that is a multiple of one tenth never reaches a
  leading character in the list: it prints with a leading \<^verbatim>\<open>0\<close> while it is not negative
  and with a minus sign afterwards.
\<close>

lemma str_first_below_one:
  assumes "x < 1" and "x \<le> 0 \<or> 1 / 10000 \<le> x"
  shows "str_first x \<notin> set [CHR ''1'', CHR ''2'', CHR ''5'']"
  using assms by (auto simp add: str_first_def)

lemma scale_number_tenths_diverge:
  assumes "scale_number ndim x = Some y"
  shows "\<not> (ndim = - 1 \<and> (\<exists>j::int. x = of_int j / 10) \<and> x < 1)"
proof -
  have "(case (ndim, x) of (a, b) \<Rightarrow>
      (\<lambda>c::int. \<not> (a = - 1 \<and> (\<exists>j::int. b = of_int j / 10) \<and> b < 1))) y"
  proof (rule scale_number.raw_induct [where xa = "(ndim, x)" and y = y
        and P = "\<lambda>a b c. \<not> (a = - 1 \<and> (\<exists>j::int. b = of_int j / 10) \<and> b < 1)"])
    fix f :: "int \<Rightarrow> rat \<Rightarrow> int option" and nd :: int and v :: rat and r :: int
    assume IH: "\<And>a b c. f a b = Some c \<Longrightarrow>
        \<not> (a = - 1 \<and> (\<exists>j::int. b = of_int j / 10) \<and> b < 1)"
    assume step: "(if str_first v \<in> set [CHR ''1'', CHR ''2'', CHR ''5''] then Some (py_int v)
        else f nd (v - pow10 nd)) = Some r"
    show "\<not> (nd = - 1 \<and> (\<exists>j::int. v = of_int j / 10) \<and> v < 1)"
    proof
      assume a: "nd = - 1 \<and> (\<exists>j::int. v = of_int j / 10) \<and> v < 1"
      then obtain j :: int where j: "v = of_int j / 10" and lt: "v < 1" and nd: "nd = - 1"
        by blast
      have "v \<le> 0 \<or> 1 / 10000 \<le> v"
      proof (cases "j \<le> 0")
        case True
        then have "(of_int j :: rat) \<le> 0" by simp
        then show ?thesis unfolding j by simp
      next
        case False
        then have "(1::rat) \<le> of_int j" by simp
        then show ?thesis unfolding j by simp
      qed
      with lt have "str_first v \<notin> set [CHR ''1'', CHR ''2'', CHR ''5'']"
        by (rule str_first_below_one)
      with step have "f nd (v - pow10 nd) = Some r" by (simp only: if_False)
      then have "\<not> (nd = - 1 \<and> (\<exists>j::int. v - pow10 nd = of_int j / 10) \<and> v - pow10 nd < 1)"
        by (rule IH)
      moreover have "pow10 (- 1) = 1 / 10" by (simp add: pow10_def)
      then have "v - pow10 nd = of_int (j - 1) / 10" unfolding nd j by simp
      then have "\<exists>j::int. v - pow10 nd = of_int j / 10" ..
      moreover have "v - pow10 nd < 1" using lt pow10_pos [of nd] by linarith
      ultimately show False using nd by blast
    qed
  next
    show "(case (ndim, x) of (a, b) \<Rightarrow> scale_number a b) = Some y"
      using assms by simp
  qed
  then show ?thesis by simp
qed

subsection \<open>Unit validation\<close>

lemma check_units_cross:
  "\<forall>t \<in> set time_units. \<forall>d \<in> set distance_units.
     check_units t d = Some IncompatibleTimeDistance \<and>
     check_units d t = Some IncompatibleDistanceTime"
  by (simp add: check_units_def all_units_def time_units_def distance_units_def)

text \<open>
  Claim C4. Whenever one token is drawn from the time tokens and the other from the
  distance tokens, the format checks reject the pair in both orders: time given as the
  isoline unit with a distance axis unit stops at the third check (line 140), distance
  given as the isoline unit with a time axis unit stops at the fourth (line 143). For a
  dictionary whose rings all have points, \<open>plot_isolines\<close> then returns without
  plotting. The rejection is the printed diagnostic and \<^verbatim>\<open>return None\<close> of the source.
\<close>

theorem cross_category_rejected:
  "\<forall>t \<in> set time_units. \<forall>d \<in> set distance_units.
     check_units t d = Some IncompatibleTimeDistance \<and>
     check_units d t = Some IncompatibleDistanceTime \<and>
     (\<forall>isolines. (\<forall>r \<in> set (map snd isolines). r \<noteq> []) \<longrightarrow>
        plot_isolines isolines t d = Inr (Rejected IncompatibleTimeDistance) \<and>
        plot_isolines isolines d t = Inr (Rejected IncompatibleDistanceTime))"
proof (intro ballI)
  fix t d
  assume "t \<in> set time_units" and "d \<in> set distance_units"
  with check_units_cross have td: "check_units t d = Some IncompatibleTimeDistance"
    and dt: "check_units d t = Some IncompatibleDistanceTime"
    by blast+
  show "check_units t d = Some IncompatibleTimeDistance \<and>
     check_units d t = Some IncompatibleDistanceTime \<and>
     (\<forall>isolines. (\<forall>r \<in> set (map snd isolines). r \<noteq> []) \<longrightarrow>
        plot_isolines isolines t d = Inr (Rejected IncompatibleTimeDistance) \<and>
        plot_isolines isolines d t = Inr (Rejected IncompatibleDistanceTime))"
    using td dt plot_isolines_rejected by blast
qed

theorem cross_category_rejected_witness:
  "check_units ''minutes'' ''km'' = Some IncompatibleTimeDistance \<and>
   check_units ''km'' ''minutes'' = Some IncompatibleDistanceTime \<and>
   plot_isolines [(10, [(1, 2), (3, 4), (5, 6)])] ''minutes'' ''km''
     = Inr (Rejected IncompatibleTimeDistance) \<and>
   plot_isolines [(10, [(1, 2), (3, 4), (5, 6)])] ''km'' ''minutes''
     = Inr (Rejected IncompatibleDistanceTime)"
proof -
  have t: "''minutes'' \<in> set time_units" by (simp add: time_units_def)
  have d: "''km'' \<in> set distance_units" by (simp add: distance_units_def)
  have r: "\<forall>r \<in> set (map snd [(10::rat, [(1::rat, 2::rat), (3, 4), (5, 6)])]). r \<noteq> []" by simp
  from cross_category_rejected t
  have "\<forall>d \<in> set distance_units.
     check_units ''minutes'' d = Some IncompatibleTimeDistance \<and>
     check_units d ''minutes'' = Some IncompatibleDistanceTime \<and>
     (\<forall>isolines. (\<forall>r \<in> set (map snd isolines). r \<noteq> []) \<longrightarrow>
        plot_isolines isolines ''minutes'' d = Inr (Rejected IncompatibleTimeDistance) \<and>
        plot_isolines isolines d ''minutes'' = Inr (Rejected IncompatibleDistanceTime))"
    by (rule bspec)
  from this d
  have "check_units ''minutes'' ''km'' = Some IncompatibleTimeDistance \<and>
     check_units ''km'' ''minutes'' = Some IncompatibleDistanceTime \<and>
     (\<forall>isolines. (\<forall>r \<in> set (map snd isolines). r \<noteq> []) \<longrightarrow>
        plot_isolines isolines ''minutes'' ''km'' = Inr (Rejected IncompatibleTimeDistance) \<and>
        plot_isolines isolines ''km'' ''minutes'' = Inr (Rejected IncompatibleDistanceTime))"
    by (rule bspec)
  with r show ?thesis by (simp only: simp_thms)
qed

text \<open>
  Claim C5. The format checks compare the token as written, so a recognised token in
  another letter case is rejected before the conversion is reached: \<^verbatim>\<open>Seconds\<close> as
  isoline unit fails the first check, \<^verbatim>\<open>KM\<close> as axis unit fails the second. The
  conversion chains themselves lower-case the token and would give \<^verbatim>\<open>Seconds\<close> and
  \<^verbatim>\<open>KM\<close> the factors of \<^verbatim>\<open>seconds\<close> and \<^verbatim>\<open>km\<close>.
\<close>

theorem mixed_case_token_rejected:
  "check_units ''Seconds'' ''minutes'' = Some IncorrectIsolineUnit \<and>
   check_units ''km'' ''KM'' = Some IncorrectAxisUnit \<and>
   plot_isolines [(10, [(1, 2), (3, 4), (5, 6)])] ''Seconds'' ''minutes''
     = Inr (Rejected IncorrectIsolineUnit) \<and>
   plot_isolines [(10, [(1, 2), (3, 4), (5, 6)])] ''seconds'' ''minutes''
     \<noteq> Inr (Rejected IncorrectIsolineUnit) \<and>
   source_factor ''Seconds'' = source_factor ''seconds'' \<and>
   target_divisor ''KM'' = target_divisor ''km''"
proof -
  have a: "check_units ''Seconds'' ''minutes'' = Some IncorrectIsolineUnit"
    by (simp add: check_units_def all_units_def)
  have b: "check_units ''km'' ''KM'' = Some IncorrectAxisUnit"
    by (simp add: check_units_def all_units_def)
  have c: "check_units ''seconds'' ''minutes'' = None"
    by (simp add: check_units_def all_units_def time_units_def distance_units_def)
  have d: "source_factor ''Seconds'' = source_factor ''seconds''"
    by (simp add: source_factor_def lower_def lower_char_def)
  have e: "target_divisor ''KM'' = target_divisor ''km''"
    by (simp add: target_divisor_def lower_def lower_char_def)
  have f: "plot_isolines [(10, [(1, 2), (3, 4), (5, 6)])] ''Seconds'' ''minutes''
     = Inr (Rejected IncorrectIsolineUnit)"
    using a by (simp add: plot_isolines_rejected)
  have g: "plot_isolines [(10, [(1, 2), (3, 4), (5, 6)])] ''seconds'' ''minutes''
     \<noteq> Inr (Rejected IncorrectIsolineUnit)"
    using c by (simp add: plot_isolines_not_rejected)
  from a b d e f g show ?thesis by simp
qed

subsection \<open>Bounding extent and empty inputs\<close>

text \<open>
  Claim C3. For a non-empty collection of polygons that all have points,
  \<open>find_extent\<close> computes one padding \<open>pad = (lon_max - lon_min) * buffer\<close> from
  the span of column 0 (longitude) alone, uses it for both axes, and returns
  \<open>[lon_min - pad, lon_max + pad, lat_min - pad, lat_max + pad]\<close>. With longitudes
  spanning 0 to 10, latitudes spanning 0 to 5 and buffer 1/10 the result is
  \<open>[-1, 11, -1, 6]\<close>.
\<close>

theorem find_extent_pads_from_longitude_span:
  assumes "all_poly \<noteq> []" and "\<forall>P \<in> set all_poly. P \<noteq> []"
  shows "(let lons = fst ` set (concat all_poly); lats = snd ` set (concat all_poly);
              pad = (Max lons - Min lons) * buffer
          in find_extent all_poly buffer =
               Inr [Fin (Min lons - pad), Fin (Max lons + pad),
                    Fin (Min lats - pad), Fin (Max lats + pad)] \<and>
             (Min lons = 0 \<and> Max lons = 10 \<and> Min lats = 0 \<and> Max lats = 5 \<longrightarrow>
                find_extent all_poly (1 / 10) = Inr [Fin (- 1), Fin 11, Fin (- 1), Fin 6]))"
proof -
  have general: "find_extent all_poly b =
     Inr [Fin (Min (fst ` set (concat all_poly))
               - (Max (fst ` set (concat all_poly)) - Min (fst ` set (concat all_poly))) * b),
          Fin (Max (fst ` set (concat all_poly))
               + (Max (fst ` set (concat all_poly)) - Min (fst ` set (concat all_poly))) * b),
          Fin (Min (snd ` set (concat all_poly))
               - (Max (fst ` set (concat all_poly)) - Min (fst ` set (concat all_poly))) * b),
          Fin (Max (snd ` set (concat all_poly))
               + (Max (fst ` set (concat all_poly)) - Min (fst ` set (concat all_poly))) * b)]" for b
    using assms by (rule find_extent_formula)
  have example: "find_extent all_poly (1 / 10) = Inr [Fin (- 1), Fin 11, Fin (- 1), Fin 6]"
    if "Min (fst ` set (concat all_poly)) = 0" "Max (fst ` set (concat all_poly)) = 10"
       "Min (snd ` set (concat all_poly)) = 0" "Max (snd ` set (concat all_poly)) = 5"
    unfolding general [of "1 / 10"] that by simp
  show ?thesis
    unfolding Let_def using general [of buffer] example by blast
qed

theorem find_extent_pads_from_longitude_span_witness:
  "find_extent [[(0, 0), (10, 0), (10, 5), (0, 5)]] (1 / 10)
     = Inr [Fin (- 1), Fin 11, Fin (- 1), Fin 6]"
  using find_extent_pads_from_longitude_span [of "[[(0, 0), (10, 0), (10, 5), (0, 5)]]" "1 / 10"]
  by (simp add: Let_def)

text \<open>
  Claim C8, as stated, does not hold: neither \<open>find_extent\<close> on an empty collection
  nor the plotting loop (or \<open>plot_isolines\<close>) on no rings fails.
\<close>

theorem empty_inputs_do_not_fail:
  "\<not> isl (find_extent [] (1 / 10)) \<and> \<not> isl (plot_loop [] [] ''minutes'' 0) \<and>
   \<not> isl (plot_isolines [] ''seconds'' ''minutes'')"
proof -
  have "find_extent [] (1 / 10) = Inr [NaN, NaN, NaN, NaN]"
    by (simp add: find_extent_empty)
  moreover have "plot_loop [] [] ''minutes'' 0 = Inr []"
    by (simp add: plot_loop_def)
  moreover have "plot_isolines [] ''seconds'' ''minutes'' = Inr (Plotted [])"
  proof -
    have "check_units ''seconds'' ''minutes'' = None"
      by (simp add: check_units_def all_units_def time_units_def distance_units_def)
    then show ?thesis by (simp add: plot_isolines_accepted)
  qed
  ultimately show ?thesis by simp
qed

text \<open>
  Claim C8, amended. There is no empty-input guard. \<open>find_extent\<close> on an empty
  collection returns a degenerate extent without failing: the initial infinities meet in
  the arithmetic and give four NaN for a buffer of at least 0 (so for 1/10), and
  \<open>[inf, -inf, inf, -inf]\<close> for a negative buffer. The plotting loop on no rings
  emits no patch and does not fail, and neither does \<open>plot_isolines\<close> on an empty
  dictionary with units that pass the format checks.
\<close>

theorem empty_inputs_give_degenerate_results:
  "find_extent [] buffer =
     Inr (if 0 \<le> buffer then [NaN, NaN, NaN, NaN] else [PosInf, NegInf, PosInf, NegInf]) \<and>
   plot_loop [] values ax_units n = Inr [] \<and>
   (check_units units ax_units = None \<longrightarrow> plot_isolines [] units ax_units = Inr (Plotted []))"
proof -
  have loop: "plot_loop [] values ax_units n = Inr []"
    by (simp add: plot_loop_def)
  have "check_units units ax_units = None \<longrightarrow> plot_isolines [] units ax_units = Inr (Plotted [])"
    by (simp add: plot_isolines_accepted)
  with find_extent_empty [of buffer] loop show ?thesis by blast
qed

theorem empty_inputs_give_degenerate_results_witness:
  "find_extent [] (1 / 10) = Inr [NaN, NaN, NaN, NaN] \<and>
   plot_loop [] [] ''minutes'' 0 = Inr [] \<and>
   plot_isolines [] ''seconds'' ''minutes'' = Inr (Plotted [])"
proof -
  have c: "check_units ''seconds'' ''minutes'' = None"
    by (simp add: check_units_def all_units_def time_units_def distance_units_def)
  from empty_inputs_give_degenerate_results [of "1 / 10" "[]" "''minutes''" 0 "''seconds''"] c
  show ?thesis by simp
qed

subsection \<open>Annulus regions\<close>

text \<open>
  Claim C1. For a sequence of \<open>N \<ge> 1\<close> rings that all have points, the plotting loop
  emits exactly \<open>N\<close> patches. Patch 0 is the simple path of ring 0: its vertices
  are the ring, its codes are one \<open>MOVETO\<close> followed by \<open>LINETO\<close>s, and it has
  the single boundary ring 0. For \<open>1 \<le> i < N\<close>, patch \<open>i\<close> is one compound path:
  the vertices of ring \<open>i\<close> in their order followed by those of ring \<open>i - 1\<close>
  reversed, each part with its own \<open>MOVETO\<close> then \<open>LINETO\<close>s. Read as a path it has
  exactly the two boundaries ring \<open>i\<close> and reversed ring \<open>i - 1\<close>; the code at the
  first vertex of the inner part is \<open>MOVETO\<close>, so no segment joins the two. The order of
  the range values plays no part in the loop, so nothing is assumed about it.
\<close>

theorem plot_loop_annulus_regions:
  assumes "polygons \<noteq> []" and "\<forall>r \<in> set polygons. r \<noteq> []"
  shows "\<exists>patches.
     plot_loop polygons values ax_units n = Inr patches \<and>
     length patches = length polygons \<and>
     patch_path (patches ! 0) =
       \<lparr>vertices = polygons ! 0,
        codes = MOVETO # replicate (length (polygons ! 0) - 1) LINETO\<rparr> \<and>
     path_boundaries (patch_path (patches ! 0)) = [polygons ! 0] \<and>
     (\<forall>i. 1 \<le> i \<and> i < length polygons \<longrightarrow>
        patch_path (patches ! i) =
          \<lparr>vertices = polygons ! i @ rev (polygons ! (i - 1)),
           codes = (MOVETO # replicate (length (polygons ! i) - 1) LINETO)
                     @ (MOVETO # replicate (length (polygons ! (i - 1)) - 1) LINETO)\<rparr> \<and>
        path_boundaries (patch_path (patches ! i)) = [polygons ! i, rev (polygons ! (i - 1))] \<and>
        codes (patch_path (patches ! i)) ! length (polygons ! i) = MOVETO)"
proof -
  define patches where
    "patches = map (\<lambda>i. projr (isoline_patch polygons values ax_units n i)) [0..<length polygons]"
  have run: "plot_loop polygons values ax_units n = Inr patches"
    unfolding patches_def using assms(2) by (rule plot_loop_nonempty)
  have len: "length patches = length polygons"
    by (simp add: patches_def)
  have nth: "patches ! i = projr (isoline_patch polygons values ax_units n i)"
    if "i < length polygons" for i
    using that by (simp add: patches_def)
  from assms(1) have pos: "0 < length polygons" by simp
  with assms(2) have z: "polygons ! 0 \<noteq> []" by (rule nth_nonempty)
  have first: "patch_path (patches ! 0) =
       \<lparr>vertices = polygons ! 0,
        codes = MOVETO # replicate (length (polygons ! 0) - 1) LINETO\<rparr>"
    by (simp only: nth [OF pos] isoline_patch_first [OF z] sum.sel patch.simps)
  have first_b: "path_boundaries (patch_path (patches ! 0)) = [polygons ! 0]"
    by (simp only: first path_boundaries_simple [OF z])
  have later: "patch_path (patches ! i) =
          \<lparr>vertices = polygons ! i @ rev (polygons ! (i - 1)),
           codes = (MOVETO # replicate (length (polygons ! i) - 1) LINETO)
                     @ (MOVETO # replicate (length (polygons ! (i - 1)) - 1) LINETO)\<rparr> \<and>
        path_boundaries (patch_path (patches ! i)) = [polygons ! i, rev (polygons ! (i - 1))] \<and>
        codes (patch_path (patches ! i)) ! length (polygons ! i) = MOVETO"
    if i: "1 \<le> i \<and> i < length polygons" for i
  proof -
    from i have i0: "i \<noteq> 0" and il: "i < length polygons" and pl: "i - 1 < length polygons"
      by arith+
    from assms(2) il have q: "polygons ! i \<noteq> []" by (rule nth_nonempty)
    from assms(2) pl have p: "polygons ! (i - 1) \<noteq> []" by (rule nth_nonempty)
    have path: "patch_path (patches ! i) =
          \<lparr>vertices = polygons ! i @ rev (polygons ! (i - 1)),
           codes = (MOVETO # replicate (length (polygons ! i) - 1) LINETO)
                     @ (MOVETO # replicate (length (polygons ! (i - 1)) - 1) LINETO)\<rparr>"
      by (simp only: nth [OF il] isoline_patch_later [OF i0 q p] sum.sel patch.simps)
    from p have rp: "rev (polygons ! (i - 1)) \<noteq> []" by simp
    have lr: "length (rev (polygons ! (i - 1))) = length (polygons ! (i - 1))" by simp
    have bs: "path_boundaries (patch_path (patches ! i)) = [polygons ! i, rev (polygons ! (i - 1))]"
      unfolding path using path_boundaries_compound [OF q rp] unfolding lr .
    have lq: "length (MOVETO # replicate (length (polygons ! i) - 1) LINETO) = length (polygons ! i)"
      using q by (cases "polygons ! i") simp_all
    have "((MOVETO # replicate (length (polygons ! i) - 1) LINETO)
             @ (MOVETO # replicate (length (polygons ! (i - 1)) - 1) LINETO)) ! length (polygons ! i)
          = MOVETO"
      using nth_append_length [of "MOVETO # replicate (length (polygons ! i) - 1) LINETO" MOVETO]
      unfolding lq .
    then have mv: "codes (patch_path (patches ! i)) ! length (polygons ! i) = MOVETO"
      by (simp only: path path.simps)
    from path bs mv show ?thesis by (intro conjI)
  qed
  from run len first first_b later show ?thesis by blast
qed

theorem plot_loop_annulus_regions_witness:
  "\<exists>patches.
     plot_loop [[(0, 0), (1, 0), (0, 1)], [(- 1, - 1), (3, - 1), (- 1, 3)]] [10, 20] ''minutes'' 2
       = Inr patches \<and>
     length patches = 2 \<and>
     path_boundaries (patch_path (patches ! 0)) = [[(0, 0), (1, 0), (0, 1)]] \<and>
     patch_path (patches ! 1) =
       \<lparr>vertices = [(- 1, - 1), (3, - 1), (- 1, 3), (0, 1), (1, 0), (0, 0)],
        codes = [MOVETO, LINETO, LINETO, MOVETO, LINETO, LINETO]\<rparr> \<and>
     path_boundaries (patch_path (patches ! 1)) =
       [[(- 1, - 1), (3, - 1), (- 1, 3)], [(0, 1), (1, 0), (0, 0)]]"
proof -
  let ?P = "[[(0::rat, 0::rat), (1, 0), (0, 1)], [(- 1, - 1), (3, - 1), (- 1, 3)]]"
  have ne: "?P \<noteq> []" and all: "\<forall>r \<in> set ?P. r \<noteq> []" by simp_all
  from plot_loop_annulus_regions [OF ne all, of "[10, 20]" "''minutes''" 2]
  obtain patches where
    run: "plot_loop ?P [10, 20] ''minutes'' 2 = Inr patches" and
    len: "length patches = length ?P" and
    b0: "path_boundaries (patch_path (patches ! 0)) = [?P ! 0]" and
    rest: "\<forall>i. 1 \<le> i \<and> i < length ?P \<longrightarrow>
        patch_path (patches ! i) =
          \<lparr>vertices = ?P ! i @ rev (?P ! (i - 1)),
           codes = (MOVETO # replicate (length (?P ! i) - 1) LINETO)
                     @ (MOVETO # replicate (length (?P ! (i - 1)) - 1) LINETO)\<rparr> \<and>
        path_boundaries (patch_path (patches ! i)) = [?P ! i, rev (?P ! (i - 1))] \<and>
        codes (patch_path (patches ! i)) ! length (?P ! i) = MOVETO"
    by blast
  from spec [OF rest, of 1] have one: "patch_path (patches ! 1) =
          \<lparr>vertices = ?P ! 1 @ rev (?P ! (1 - 1)),
           codes = (MOVETO # replicate (length (?P ! 1) - 1) LINETO)
                     @ (MOVETO # replicate (length (?P ! (1 - 1)) - 1) LINETO)\<rparr> \<and>
        path_boundaries (patch_path (patches ! 1)) = [?P ! 1, rev (?P ! (1 - 1))]"
    by (simp add: path_boundaries_def)
  have r3: "replicate 2 LINETO = [LINETO, LINETO]" by (simp add: numeral_2_eq_2)
  from run len b0 one show ?thesis
    by (intro exI [of _ patches]) (simp add: r3 path_boundaries_def)
qed

subsection \<open>Order of consumption\<close>

text \<open>
  Claim C2. \<open>plot_isolines\<close> takes the keys in the iteration order of the dictionary
  and sorts nothing. Here it is run on the dictionary with the keys 20 and 10 entered in
  that order. Patch 0 is the whole ring of 20, labelled from 0 to 20/60; patch 1 is the
  ring of 10 with the reversed ring of 20 as its second boundary, labelled from 20/60 to
  10/60. So the larger isoline is painted over the smaller one and the second label runs
  backwards, against the docstring of the function, by which it ensures that the larger
  isolines do not overlap the smaller ones. The same mapping entered as 10, 20 gives
  another result.
\<close>

theorem descending_keys_plotted_unsorted:
  "plot_isolines [(20, [(- 1, - 1), (3, - 1), (- 1, 3)]), (10, [(0, 0), (1, 0), (0, 1)])]
     ''seconds'' ''minutes''
   = Inr (Plotted
       [\<lparr>patch_path =
           \<lparr>vertices = [(- 1, - 1), (- 1, 3), (3, - 1)],
            codes = [MOVETO, LINETO, LINETO]\<rparr>,
         facecolor = 3 / 4, label_from = 0, label_to = 1 / 3, label_units = ''minutes''\<rparr>,
        \<lparr>patch_path =
           \<lparr>vertices = [(0, 0), (0, 1), (1, 0), (3, - 1), (- 1, 3), (- 1, - 1)],
            codes = [MOVETO, LINETO, LINETO, MOVETO, LINETO, LINETO]\<rparr>,
         facecolor = 1 / 4, label_from = 1 / 3, label_to = 1 / 6, label_units = ''minutes''\<rparr>]) \<and>
   path_boundaries
       \<lparr>vertices = [(0, 0), (0, 1), (1, 0), (3, - 1), (- 1, 3), (- 1, - 1)],
        codes = [MOVETO, LINETO, LINETO, MOVETO, LINETO, LINETO]\<rparr>
     = [[(0, 0), (0, 1), (1, 0)], [(3, - 1), (- 1, 3), (- 1, - 1)]] \<and>
   plot_isolines [(20, [(- 1, - 1), (3, - 1), (- 1, 3)]), (10, [(0, 0), (1, 0), (0, 1)])]
       ''seconds'' ''minutes''
     \<noteq> plot_isolines [(10, [(0, 0), (1, 0), (0, 1)]), (20, [(- 1, - 1), (3, - 1), (- 1, 3)])]
       ''seconds'' ''minutes''"
proof -
  let ?A = "[(0::rat, 0::rat), (1, 0), (0, 1)]"
  let ?B = "[(- 1::rat, - 1::rat), (3, - 1), (- 1, 3)]"
  let ?d1 = "[(10::rat, ?A), (20, ?B)]"
  let ?d2 = "[(20::rat, ?B), (10, ?A)]"
  have c: "check_units ''seconds'' ''minutes'' = None"
    by (simp add: check_units_def all_units_def time_units_def distance_units_def)
  have f: "source_factor ''seconds'' = Some 1"
    by (simp add: source_factor_def lower_def lower_char_def)
  have g: "target_divisor ''minutes'' = 60"
    by (simp add: target_divisor_def lower_def lower_char_def)
  have n1: "\<forall>r \<in> set (map snd ?d1). r \<noteq> []" and n2: "\<forall>r \<in> set (map snd ?d2). r \<noteq> []"
    by simp_all
  have two: "[0..<length ?d2] = [0, 1]" "[0..<length ?d1] = [0, 1]"
    by (simp_all add: upt_rec)
  have p0: "isoline_patch [map prod.swap ?B, map prod.swap ?A] [20 / 60, 10 / 60] ''minutes'' (Suc (Suc 0)) 0
      = Inr \<lparr>patch_path =
           \<lparr>vertices = [(- 1, - 1), (- 1, 3), (3, - 1)],
            codes = [MOVETO, LINETO, LINETO]\<rparr>,
         facecolor = 3 / 4, label_from = 0, label_to = 1 / 3, label_units = ''minutes''\<rparr>"
    by (simp add: isoline_patch_def move_then_lines_def get_c_def)
  have p1: "isoline_patch [map prod.swap ?B, map prod.swap ?A] [20 / 60, 10 / 60] ''minutes'' (Suc (Suc 0)) (Suc 0)
      = Inr \<lparr>patch_path =
           \<lparr>vertices = [(0, 0), (0, 1), (1, 0), (3, - 1), (- 1, 3), (- 1, - 1)],
            codes = [MOVETO, LINETO, LINETO, MOVETO, LINETO, LINETO]\<rparr>,
         facecolor = 1 / 4, label_from = 1 / 3, label_to = 1 / 6, label_units = ''minutes''\<rparr>"
    by (simp add: isoline_patch_def patch_between_def move_then_lines_def get_c_def)
  have q0: "isoline_patch [map prod.swap ?A, map prod.swap ?B] [10 / 60, 20 / 60] ''minutes'' (Suc (Suc 0)) 0
      = Inr \<lparr>patch_path =
           \<lparr>vertices = [(0, 0), (0, 1), (1, 0)],
            codes = [MOVETO, LINETO, LINETO]\<rparr>,
         facecolor = 3 / 4, label_from = 0, label_to = 1 / 6, label_units = ''minutes''\<rparr>"
    by (simp add: isoline_patch_def move_then_lines_def get_c_def)
  have run2: "plot_isolines ?d2 ''seconds'' ''minutes''
   = Inr (Plotted
       [\<lparr>patch_path =
           \<lparr>vertices = [(- 1, - 1), (- 1, 3), (3, - 1)],
            codes = [MOVETO, LINETO, LINETO]\<rparr>,
         facecolor = 3 / 4, label_from = 0, label_to = 1 / 3, label_units = ''minutes''\<rparr>,
        \<lparr>patch_path =
           \<lparr>vertices = [(0, 0), (0, 1), (1, 0), (3, - 1), (- 1, 3), (- 1, - 1)],
            codes = [MOVETO, LINETO, LINETO, MOVETO, LINETO, LINETO]\<rparr>,
         facecolor = 1 / 4, label_from = 1 / 3, label_to = 1 / 6, label_units = ''minutes''\<rparr>])"
    unfolding plot_isolines_accepted [OF n2 c] two using p0 p1 by (simp add: f g)
  have run1: "\<exists>rest. plot_isolines ?d1 ''seconds'' ''minutes''
   = Inr (Plotted
       (\<lparr>patch_path =
           \<lparr>vertices = [(0, 0), (0, 1), (1, 0)],
            codes = [MOVETO, LINETO, LINETO]\<rparr>,
         facecolor = 3 / 4, label_from = 0, label_to = 1 / 6, label_units = ''minutes''\<rparr> # rest))"
    unfolding plot_isolines_accepted [OF n1 c] two using q0 by (simp add: f g)
  have b: "path_boundaries
       \<lparr>vertices = [(0, 0), (0, 1), (1, 0), (3, - 1), (- 1, 3), (- 1, - 1)],
        codes = [MOVETO, LINETO, LINETO, MOVETO, LINETO, LINETO]\<rparr>
     = [[(0, 0), (0, 1), (1, 0)], [(3, - 1), (- 1, 3), (- 1, - 1)]]"
    by (simp add: path_boundaries_def)
  from run1 obtain rest where r1: "plot_isolines ?d1 ''seconds'' ''minutes''
   = Inr (Plotted
       (\<lparr>patch_path =
           \<lparr>vertices = [(0, 0), (0, 1), (1, 0)],
            codes = [MOVETO, LINETO, LINETO]\<rparr>,
         facecolor = 3 / 4, label_from = 0, label_to = 1 / 6, label_units = ''minutes''\<rparr> # rest))" ..
  have ne: "plot_isolines ?d2 ''seconds'' ''minutes'' \<noteq> plot_isolines ?d1 ''seconds'' ''minutes''"
    unfolding run2 r1 by simp
  from run2 b ne show ?thesis by (intro conjI)
qed

subsection \<open>Decoding\<close>

text \<open>
  Claim C9, as stated, does not hold: a response in which two entries share the range
  value 10 is decoded without failure, and the second ring replaces the first.
\<close>

theorem duplicate_range_value_overwrites:
  "here_isolines_to_WGS84 (\<lambda>s. Inr [(of_nat (length s), 0), (0, of_nat (length s)), (0, 0)])
     [\<lparr>range_value = 10, polygons_outer = [''a'']\<rparr>,
      \<lparr>range_value = 10, polygons_outer = [''bb'']\<rparr>]
   = Inr [(10, [(2, 0), (0, 2), (0, 0)])]"
  by (simp add: here_isolines_to_WGS84_def dict_set_def)

text \<open>
  Claim C9, amended. When every entry has a polygon and decodes,
  \<open>here_isolines_to_WGS84\<close> returns a dictionary and never fails on a repeated range
  value. Its keys are the distinct range values of the response, in the order of their
  first occurrence, one entry each. Under every key stands the ring of the last entry of
  the response that declares this range value: a later entry overwrites an earlier one.
  When all range values are distinct, the dictionary has one entry per isoline entry (3
  for 3 entries), keyed by the declared range value, in the order of the response.
\<close>

theorem here_isolines_keyed_by_range_value:
  assumes "\<forall>entry \<in> set here_response. polygons_outer entry \<noteq> [] \<and>
      (\<exists>ring. iter_decode (hd (polygons_outer entry)) = Inr ring)"
  shows "\<exists>isolines.
     here_isolines_to_WGS84 iter_decode here_response = Inr isolines \<and>
     map fst isolines = rev (remdups (rev (map range_value here_response))) \<and>
     distinct (map fst isolines) \<and>
     set (map fst isolines) = range_value ` set here_response \<and>
     length isolines = card (range_value ` set here_response) \<and>
     (\<forall>k \<in> range_value ` set here_response.
        map_of isolines k =
          Some (projr (iter_decode (hd (polygons_outer
                  (last (filter (\<lambda>entry. range_value entry = k) here_response))))))) \<and>
     (here_response \<noteq> [] \<longrightarrow>
        map_of isolines (range_value (last here_response))
          = Some (projr (iter_decode (hd (polygons_outer (last here_response)))))) \<and>
     (distinct (map range_value here_response) \<longrightarrow>
        isolines = map (\<lambda>entry. (range_value entry,
                      projr (iter_decode (hd (polygons_outer entry))))) here_response \<and>
        length isolines = length here_response)"
proof -
  let ?g = "\<lambda>entry. projr (iter_decode (hd (polygons_outer entry)))"
  define isolines where
    "isolines = fold (\<lambda>entry d. dict_set d (range_value entry) (?g entry)) here_response []"
  have run: "here_isolines_to_WGS84 iter_decode here_response = Inr isolines"
    unfolding here_isolines_to_WGS84_def isolines_def using assms by (rule decode_into_fold)
  have order: "map fst isolines = rev (remdups (rev (map range_value here_response)))"
    unfolding isolines_def by (rule fold_dict_set_key_order)
  have dist: "distinct (map fst isolines)"
    unfolding isolines_def by (rule fold_dict_set_distinct) simp
  have keys: "set (map fst isolines) = range_value ` set here_response"
    unfolding isolines_def by (simp only: fold_dict_set_keys) simp
  have "length isolines = length (map fst isolines)" by simp
  also from dist have "\<dots> = card (set (map fst isolines))" by (rule distinct_card [symmetric])
  finally have size: "length isolines = card (range_value ` set here_response)"
    by (simp only: keys)
  have every: "\<forall>k \<in> range_value ` set here_response.
        map_of isolines k = Some (?g (last (filter (\<lambda>entry. range_value entry = k) here_response)))"
    unfolding isolines_def by (intro ballI) (rule fold_dict_set_lookup)
  have lst: "map_of isolines (range_value (last here_response)) = Some (?g (last here_response))"
    if "here_response \<noteq> []"
    unfolding isolines_def using that by (rule fold_dict_set_last)
  have uniq: "isolines = map (\<lambda>entry. (range_value entry, ?g entry)) here_response \<and>
        length isolines = length here_response"
    if d: "distinct (map range_value here_response)"
  proof -
    have "range_value ` set here_response \<inter> fst ` set [] = {}" by simp
    with d have "isolines = [] @ map (\<lambda>entry. (range_value entry, ?g entry)) here_response"
      unfolding isolines_def by (rule fold_dict_set_fresh)
    then have eq: "isolines = map (\<lambda>entry. (range_value entry, ?g entry)) here_response"
      by (simp only: append_Nil)
    then have "length isolines = length here_response" by (simp only: length_map)
    with eq show ?thesis ..
  qed
  from run order dist keys size every lst uniq show ?thesis by blast
qed

theorem here_isolines_keyed_by_range_value_witness:
  "(\<exists>isolines.
     here_isolines_to_WGS84 (\<lambda>s. Inr [(of_nat (length s), 0), (0, of_nat (length s)), (0, 0)])
       [\<lparr>range_value = 10, polygons_outer = [''a'']\<rparr>,
        \<lparr>range_value = 20, polygons_outer = [''bb'']\<rparr>,
        \<lparr>range_value = 30, polygons_outer = [''ccc'']\<rparr>] = Inr isolines \<and>
     length isolines = 3 \<and>
     map fst isolines = [10, 20, 30] \<and>
     map_of isolines 30 = Some [(3, 0), (0, 3), (0, 0)]) \<and>
   (\<exists>isolines.
     here_isolines_to_WGS84 (\<lambda>s. Inr [(of_nat (length s), 0), (0, of_nat (length s)), (0, 0)])
       [\<lparr>range_value = 10, polygons_outer = [''a'']\<rparr>,
        \<lparr>range_value = 10, polygons_outer = [''bb'']\<rparr>,
        \<lparr>range_value = 20, polygons_outer = [''ccc'']\<rparr>] = Inr isolines \<and>
     map fst isolines = [10, 20] \<and>
     map_of isolines 10 = Some [(2, 0), (0, 2), (0, 0)] \<and>
     map_of isolines 20 = Some [(3, 0), (0, 3), (0, 0)])"
proof -
  let ?dec = "\<lambda>s::string. (Inr [(of_nat (length s), 0), (0, of_nat (length s)), (0, 0)]
                 :: py_error + polygon)"
  let ?resp = "[\<lparr>range_value = 10, polygons_outer = [''a'']\<rparr>,
        \<lparr>range_value = 20, polygons_outer = [''bb'']\<rparr>,
        \<lparr>range_value = 30, polygons_outer = [''ccc'']\<rparr>]"
  let ?dup = "[\<lparr>range_value = 10, polygons_outer = [''a'']\<rparr>,
        \<lparr>range_value = 10, polygons_outer = [''bb'']\<rparr>,
        \<lparr>range_value = 20, polygons_outer = [''ccc'']\<rparr>]"
  have ok: "\<forall>entry \<in> set ?resp. polygons_outer entry \<noteq> [] \<and>
      (\<exists>ring. ?dec (hd (polygons_outer entry)) = Inr ring)"
    by simp
  have ok': "\<forall>entry \<in> set ?dup. polygons_outer entry \<noteq> [] \<and>
      (\<exists>ring. ?dec (hd (polygons_outer entry)) = Inr ring)"
    by simp
  from here_isolines_keyed_by_range_value [OF ok] obtain isolines where
    run: "here_isolines_to_WGS84 ?dec ?resp = Inr isolines" and
    lst: "?resp \<noteq> [] \<longrightarrow> map_of isolines (range_value (last ?resp))
          = Some (projr (?dec (hd (polygons_outer (last ?resp)))))" and
    uniq: "distinct (map range_value ?resp) \<longrightarrow>
        isolines = map (\<lambda>entry. (range_value entry,
                      projr (?dec (hd (polygons_outer entry))))) ?resp \<and>
        length isolines = length ?resp"
    by blast
  from run lst uniq have first: "\<exists>isolines. here_isolines_to_WGS84 ?dec ?resp = Inr isolines \<and>
     length isolines = 3 \<and> map fst isolines = [10, 20, 30] \<and>
     map_of isolines 30 = Some [(3, 0), (0, 3), (0, 0)]"
    by (intro exI [of _ isolines]) simp
  from here_isolines_keyed_by_range_value [OF ok'] obtain dupl where
    run': "here_isolines_to_WGS84 ?dec ?dup = Inr dupl" and
    order: "map fst dupl = rev (remdups (rev (map range_value ?dup)))" and
    every: "\<forall>k \<in> range_value ` set ?dup.
        map_of dupl k =
          Some (projr (?dec (hd (polygons_outer
                  (last (filter (\<lambda>entry. range_value entry = k) ?dup))))))"
    by blast
  have "(10::rat) \<in> range_value ` set ?dup" "(20::rat) \<in> range_value ` set ?dup" by simp_all
  with every have
    "map_of dupl 10 = Some (projr (?dec (hd (polygons_outer
                  (last (filter (\<lambda>entry. range_value entry = 10) ?dup))))))"
    "map_of dupl 20 = Some (projr (?dec (hd (polygons_outer
                  (last (filter (\<lambda>entry. range_value entry = 20) ?dup))))))"
    by blast+
  with run' order have second: "\<exists>isolines. here_isolines_to_WGS84 ?dec ?dup = Inr isolines \<and>
     map fst isolines = [10, 20] \<and>
     map_of isolines 10 = Some [(2, 0), (0, 2), (0, 0)] \<and>
     map_of isolines 20 = Some [(3, 0), (0, 3), (0, 0)]"
    by (intro exI [of _ dupl]) simp
  from first second show ?thesis by (rule conjI)
qed

subsection \<open>Column order\<close>

text \<open>
  Claim C10. The rings that \<open>here_isolines_to_WGS84\<close> stores are the rows that the
  decoder returned for the first polygon of an entry, unchanged, so in the decoder's
  (latitude, longitude) column order. Line 129 of \<open>plot_isolines\<close> exchanges the two
  columns of every ring: the result has the same number of points, and point \<open>j\<close> is
  point \<open>j\<close> of the ring with its coordinates exchanged. The outer boundary of patch
  \<open>i\<close> is ring \<open>i\<close> in (longitude, latitude) order. \<open>find_extent\<close> fed the
  decoded rings as they are takes column 0, the latitudes, for its first two bounds and for
  the padding; fed the exchanged rings it takes the longitudes there.
\<close>

theorem decoder_column_order_handoff:
  "(here_isolines_to_WGS84 iter_decode here_response = Inr decoded \<longrightarrow>
      (\<forall>(k, ring) \<in> set decoded. \<exists>entry \<in> set here_response. range_value entry = k \<and>
          polygons_outer entry \<noteq> [] \<and> iter_decode (hd (polygons_outer entry)) = Inr ring)) \<and>
   (coords \<noteq> [] \<longrightarrow>
      (\<exists>poly. lonlat coords = Inr poly \<and> length poly = length coords \<and>
         (\<forall>j. j < length coords \<longrightarrow> poly ! j = (snd (coords ! j), fst (coords ! j))))) \<and>
   ((\<forall>r \<in> set (map snd isolines). r \<noteq> []) \<and> check_units units ax_units = None \<longrightarrow>
      (\<exists>patches. plot_isolines isolines units ax_units = Inr (Plotted patches) \<and>
         length patches = length isolines \<and>
         (\<forall>i. i < length isolines \<longrightarrow>
            hd (path_boundaries (patch_path (patches ! i)))
              = map (\<lambda>(lat, lon). (lon, lat)) (snd (isolines ! i))))) \<and>
   (isolines \<noteq> [] \<and> (\<forall>r \<in> set (map snd isolines). r \<noteq> []) \<longrightarrow>
      (let lats = fst ` set (concat (map snd isolines));
           lons = snd ` set (concat (map snd isolines))
       in find_extent (map snd isolines) buffer =
            Inr [Fin (Min lats - (Max lats - Min lats) * buffer),
                 Fin (Max lats + (Max lats - Min lats) * buffer),
                 Fin (Min lons - (Max lats - Min lats) * buffer),
                 Fin (Max lons + (Max lats - Min lats) * buffer)] \<and>
          find_extent (map (map prod.swap) (map snd isolines)) buffer =
            Inr [Fin (Min lons - (Max lons - Min lons) * buffer),
                 Fin (Max lons + (Max lons - Min lons) * buffer),
                 Fin (Min lats - (Max lons - Min lons) * buffer),
                 Fin (Max lats + (Max lons - Min lons) * buffer)]))"
proof (intro conjI impI)
  assume run: "here_isolines_to_WGS84 iter_decode here_response = Inr decoded"
  show "\<forall>(k, ring) \<in> set decoded. \<exists>entry \<in> set here_response. range_value entry = k \<and>
          polygons_outer entry \<noteq> [] \<and> iter_decode (hd (polygons_outer entry)) = Inr ring"
  proof (intro ballI, unfold split_paired_all prod.case)
    fix k ring
    assume "(k, ring) \<in> set decoded"
    with run have "(k, ring) \<in> set [] \<or>
       (\<exists>entry \<in> set here_response. range_value entry = k \<and> polygons_outer entry \<noteq> [] \<and>
          iter_decode (hd (polygons_outer entry)) = Inr ring)"
      unfolding here_isolines_to_WGS84_def by (rule decode_into_sound)
    then show "\<exists>entry \<in> set here_response. range_value entry = k \<and>
        polygons_outer entry \<noteq> [] \<and> iter_decode (hd (polygons_outer entry)) = Inr ring"
      by simp
  qed
next
  assume ne: "coords \<noteq> []"
  have "lonlat coords = Inr (map prod.swap coords)" using ne by (rule lonlat_nonempty)
  moreover have "length (map prod.swap coords) = length coords" by simp
  moreover have "\<forall>j. j < length coords \<longrightarrow>
      map prod.swap coords ! j = (snd (coords ! j), fst (coords ! j))"
    by (simp add: prod.swap_def)
  ultimately show "\<exists>poly. lonlat coords = Inr poly \<and> length poly = length coords \<and>
         (\<forall>j. j < length coords \<longrightarrow> poly ! j = (snd (coords ! j), fst (coords ! j)))"
    by blast
next
  assume "(\<forall>r \<in> set (map snd isolines). r \<noteq> []) \<and> check_units units ax_units = None"
  then have n: "\<forall>r \<in> set (map snd isolines). r \<noteq> []" and c: "check_units units ax_units = None"
    by (rule conjunct1, rule conjunct2)
  have sw: "(\<lambda>(lat, lon). (lon, lat)) = (prod.swap :: point \<Rightarrow> point)"
    by (simp add: fun_eq_iff)
  from plot_isolines_patches [OF n c] obtain patches where
    "plot_isolines isolines units ax_units = Inr (Plotted patches)"
    "length patches = length isolines"
    "\<forall>i. i < length isolines \<longrightarrow>
        hd (path_boundaries (patch_path (patches ! i))) = map prod.swap (snd (isolines ! i)) \<and>
        label_to (patches ! i) =
          fst (isolines ! i) * the (source_factor units) / target_divisor ax_units"
    by blast
  then show "\<exists>patches. plot_isolines isolines units ax_units = Inr (Plotted patches) \<and>
         length patches = length isolines \<and>
         (\<forall>i. i < length isolines \<longrightarrow>
            hd (path_boundaries (patch_path (patches ! i)))
              = map (\<lambda>(lat, lon). (lon, lat)) (snd (isolines ! i)))"
    unfolding sw by blast
next
  assume "isolines \<noteq> [] \<and> (\<forall>r \<in> set (map snd isolines). r \<noteq> [])"
  then have ne: "map snd isolines \<noteq> []" and n: "\<forall>r \<in> set (map snd isolines). r \<noteq> []"
    by simp_all
  have ne': "map (map prod.swap) (map snd isolines) \<noteq> []"
    and n': "\<forall>r \<in> set (map (map prod.swap) (map snd isolines)). r \<noteq> []"
    using ne n by simp_all
  show "let lats = fst ` set (concat (map snd isolines));
           lons = snd ` set (concat (map snd isolines))
       in find_extent (map snd isolines) buffer =
            Inr [Fin (Min lats - (Max lats - Min lats) * buffer),
                 Fin (Max lats + (Max lats - Min lats) * buffer),
                 Fin (Min lons - (Max lats - Min lats) * buffer),
                 Fin (Max lons + (Max lats - Min lats) * buffer)] \<and>
          find_extent (map (map prod.swap) (map snd isolines)) buffer =
            Inr [Fin (Min lons - (Max lons - Min lons) * buffer),
                 Fin (Max lons + (Max lons - Min lons) * buffer),
                 Fin (Min lats - (Max lons - Min lons) * buffer),
                 Fin (Max lats + (Max lons - Min lons) * buffer)]"
    unfolding Let_def
    using find_extent_formula [OF ne n, of buffer] find_extent_formula [OF ne' n', of buffer]
    unfolding swapped_columns by (rule conjI)
qed

theorem decoder_column_order_handoff_witness:
  "(\<exists>entry \<in> set [\<lparr>range_value = 10, polygons_outer = [''x'']\<rparr>].
      range_value entry = 10 \<and>
      (\<lambda>s::string. Inr [(52, 13), (53, 13), (53, 15)] :: py_error + polygon)
        (hd (polygons_outer entry)) = Inr [(52, 13), (53, 13), (53, 15)]) \<and>
   (\<exists>poly. lonlat [(52, 13), (53, 13), (53, 15)] = Inr poly \<and> length poly = 3 \<and>
      poly ! 0 = (13, 52) \<and> poly ! 1 = (13, 53) \<and> poly ! 2 = (15, 53)) \<and>
   (\<exists>patches. plot_isolines [(10, [(52, 13), (53, 13), (53, 15)])] ''seconds'' ''minutes''
        = Inr (Plotted patches) \<and>
      hd (path_boundaries (patch_path (patches ! 0))) = [(13, 52), (13, 53), (15, 53)]) \<and>
   find_extent [[(52, 13), (53, 13), (53, 15)]] (1 / 10)
     = Inr [Fin (519 / 10), Fin (531 / 10), Fin (129 / 10), Fin (151 / 10)] \<and>
   find_extent [[(13, 52), (13, 53), (15, 53)]] (1 / 10)
     = Inr [Fin (128 / 10), Fin (152 / 10), Fin (518 / 10), Fin (532 / 10)]"
proof -
  let ?R = "[(52, 13), (53, 13), (53, 15)] :: polygon"
  let ?dec = "\<lambda>s::string. Inr ?R :: py_error + polygon"
  let ?resp = "[\<lparr>range_value = 10, polygons_outer = [''x'']\<rparr>]"
  note inst = decoder_column_order_handoff [where iter_decode = "?dec" and here_response = "?resp"
      and decoded = "[(10, ?R)]" and coords = "?R" and isolines = "[(10, ?R)]"
      and units = "''seconds''" and ax_units = "''minutes''" and buffer = "1 / 10"]
  have run: "here_isolines_to_WGS84 ?dec ?resp = Inr [(10, ?R)]"
    by (simp add: here_isolines_to_WGS84_def dict_set_def)
  have c: "check_units ''seconds'' ''minutes'' = None"
    by (simp add: check_units_def all_units_def time_units_def distance_units_def)
  from inst run have a: "\<exists>entry \<in> set ?resp. range_value entry = 10 \<and>
      ?dec (hd (polygons_outer entry)) = Inr ?R"
    by simp
  from inst obtain poly where "lonlat ?R = Inr poly" "length poly = length ?R"
    "\<forall>j. j < length ?R \<longrightarrow> poly ! j = (snd (?R ! j), fst (?R ! j))"
    by blast
  from this(1,2) spec [OF this(3), of 0] spec [OF this(3), of 1] spec [OF this(3), of 2]
  have b: "\<exists>poly. lonlat ?R = Inr poly \<and> length poly = 3 \<and>
      poly ! 0 = (13, 52) \<and> poly ! 1 = (13, 53) \<and> poly ! 2 = (15, 53)"
    by (intro exI [of _ poly]) simp
  from inst c obtain patches where
    "plot_isolines [(10, ?R)] ''seconds'' ''minutes'' = Inr (Plotted patches)"
    "\<forall>i. i < length [(10::rat, ?R)] \<longrightarrow>
            hd (path_boundaries (patch_path (patches ! i)))
              = map (\<lambda>(lat, lon). (lon, lat)) (snd ([(10::rat, ?R)] ! i))"
    by auto
  from this(1) spec [OF this(2), of 0]
  have p: "\<exists>patches. plot_isolines [(10, ?R)] ''seconds'' ''minutes'' = Inr (Plotted patches) \<and>
      hd (path_boundaries (patch_path (patches ! 0))) = [(13, 52), (13, 53), (15, 53)]"
    by (intro exI [of _ patches]) simp
  from inst have e: "find_extent [?R] (1 / 10)
       = Inr [Fin (519 / 10), Fin (531 / 10), Fin (129 / 10), Fin (151 / 10)] \<and>
     find_extent [[(13, 52), (13, 53), (15, 53)]] (1 / 10)
       = Inr [Fin (128 / 10), Fin (152 / 10), Fin (518 / 10), Fin (532 / 10)]"
    by (simp add: Let_def)
  from a b p e show ?thesis by (intro conjI) simp_all
qed

subsection \<open>Scale-bar length\<close>

text \<open>
  Claim C6. For the positive candidate 3/10 (an extent of 1500 m) the search neither
  returns a value nor fails with an error of its own: \<open>ndim\<close> is -1, and the values
  0.3, 0.2, 0.1, 0, -0.1, ... all print with a leading \<^verbatim>\<open>0\<close> or minus sign, so the
  test for a leading 1, 2 or 5 never holds and nothing else stops the recursion.
\<close>

theorem sub_unit_candidate_never_returns:
  "scale_bar_length None 0 1500 = Inr None"
proof -
  have fl: "floor_log10 (3 / 10) = Inr (- 1)"
    by (simp add: floor_log10_def log10_up.simps)
  have p: "pow10 (- 1) = 1 / 10" by (simp add: pow10_def)
  have r: "py_round (3 / 10) (- (- 1)) = 3 / 10"
    unfolding py_round_multiple p by (simp add: round_half_even_def Let_def)
  have "scale_number (- 1) (3 / 10) = None"
  proof (cases "scale_number (- 1) (3 / 10)")
    case None
    then show ?thesis .
  next
    case (Some y)
    then have "\<not> (- 1 = (- 1::int) \<and> (\<exists>j::int. (3 / 10 :: rat) = of_int j / 10) \<and> (3 / 10 :: rat) < 1)"
      by (rule scale_number_tenths_diverge)
    moreover have "(3 / 10 :: rat) = of_int 3 / 10" by simp
    then have "\<exists>j::int. (3 / 10 :: rat) = of_int j / 10" ..
    ultimately show ?thesis by simp
  qed
  then show ?thesis
    by (simp add: scale_bar_length_def fl r del: minus_minus)
qed



end
